theory Spec2Isabelle
  imports Complex_Main
begin

section \<open>JavaScript values used by the generator\<close>

text \<open>
  JavaScript numbers are modelled as rationals where the source divides (pixel sizes,
  paddings) and as integers where it counts (loop indices, ranks, columns). The value
  NaN of a numeric expression is \<open>None\<close>.

  A JavaScript string is the list of its UTF-16 code units, each a natural number; \<open>js\<close>
  gives the string of an ASCII literal. The texts of the errors the source throws are
  constants of the source and are kept as literals.
\<close>

type_synonym jstring = "nat list"

definition js :: "string \<Rightarrow> jstring" where
  "js s = map of_char s"

text \<open>
  \<open>String.prototype.toLowerCase\<close>, code unit by code unit. The letters A to Z go to
  a to z, and the Kelvin sign U+212A goes to k: it is the one character outside ASCII whose
  lowercase form is an ASCII letter. Every other code unit is left as it is: the lowercase
  form of any other character outside ASCII has a code unit outside ASCII as well, and the
  generator only asks whether a lowercased string occurs in a string of ASCII piece letters
  (and keeps the lowercased string only when it does).
\<close>

definition kelvin :: nat where
  "kelvin = 8490"

definition lower_unit :: "nat \<Rightarrow> nat" where
  "lower_unit c =
     (if 65 \<le> c \<and> c \<le> 90 then c + 32
      else if c = kelvin then 107
      else c)"

definition toLowerCase :: "jstring \<Rightarrow> jstring" where
  "toLowerCase s = map lower_unit s"

text \<open>\<open>String.prototype.includes\<close> (named \<open>str_includes\<close>: \<open>includes\<close> is reserved): the
  argument occurs as a contiguous substring.\<close>

definition str_includes :: "'a list \<Rightarrow> 'a list \<Rightarrow> bool" where
  "str_includes s t = list_ex (\<lambda>k. take (length t) (drop k s) = t) [0..<Suc (length s)]"

text \<open>Number to string conversion of an integer, as string concatenation performs it.\<close>

definition digit_char :: "nat \<Rightarrow> nat" where
  "digit_char n = js ''0123456789'' ! n"

fun nat_str :: "nat \<Rightarrow> jstring" where
  "nat_str n = (if n < 10 then [digit_char n] else nat_str (n div 10) @ [digit_char (n mod 10)])"

declare nat_str.simps [simp del]

definition num_str :: "int \<Rightarrow> jstring" where
  "num_str k = (if k < 0 then js ''-'' @ nat_str (nat (- k)) else nat_str (nat k))"

text \<open>
  String to number conversion of one character, as the subtraction \<open>arrow.from[1] - 1\<close>
  performs it: a digit is its value, a white-space or line-end character is 0, anything
  else is NaN.
\<close>

definition to_number :: "nat \<Rightarrow> int option" where
  "to_number c =
     (if 48 \<le> c \<and> c \<le> 57 then Some (int c - 48)
      else if c = 32 \<or> (9 \<le> c \<and> c \<le> 13) \<or> c = 160 \<or> c = 5760 \<or> (8192 \<le> c \<and> c \<le> 8202)
        \<or> c = 8232 \<or> c = 8233 \<or> c = 8239 \<or> c = 8287 \<or> c = 12288 \<or> c = 65279
      then Some 0
      else None)"

text \<open>Indexing a string: \<open>undefined\<close> (here \<open>None\<close>) out of range.\<close>

definition char_at :: "jstring \<Rightarrow> int \<Rightarrow> nat option" where
  "char_at s k = (if 0 \<le> k \<and> k < int (length s) then Some (s ! nat k) else None)"

section \<open>The configuration module\<close>

text \<open>
  Modelled from the spec: the module \<open>config/index\<close> is not among the sources. The spec
  describes \<open>cols\<close> as the fixed ordered list of the 8 file letters, and the piece codes
  as the six piece letters, uppercase for white and lowercase for black.
\<close>

definition cols :: jstring where
  "cols = js ''abcdefgh''"

definition white :: jstring where
  "white = js ''PBNRQK''"

definition black :: jstring where
  "black = js ''pbnrqk''"

datatype padding = Padding rat rat rat rat

text \<open>\<open>padding[k]\<close> for the four sides top, right, bottom, left.\<close>

fun pad_at :: "padding \<Rightarrow> nat \<Rightarrow> rat" where
  "pad_at (Padding t r b l) k = (if k = 0 then t else if k = 1 then r else if k = 2 then b else l)"

text \<open>
  The default values and the sprite file table of \<open>config/index\<close> are not described by
  the spec; they are parameters of the model.
\<close>

record config =
  defaultSize :: rat
  defaultPadding :: padding
  defaultLight :: jstring
  defaultDark :: jstring
  defaultHighlight :: jstring
  defaultStyle :: jstring
  filePaths :: "jstring \<Rightarrow> jstring option"

section \<open>The rules engine (chess.js)\<close>

text \<open>
  The rules engine is an external collaborator. Its board is modelled after the documented
  interface of chess.js: \<open>clear\<close> empties the board, \<open>get\<close> reads a square, and \<open>put\<close>
  places a piece and fails (leaving the board unchanged) on an invalid piece, on an
  invalid square, and when a second king of one colour would be placed.
\<close>

record piece =
  type :: jstring
  color :: jstring

record chess_board =
  board :: "jstring \<rightharpoonup> piece"
  kings :: "jstring \<rightharpoonup> jstring"

definition SQUARES :: "jstring list" where
  "SQUARES = concat (map (\<lambda>r. map (\<lambda>f. [f, r]) (js ''abcdefgh'')) (js ''87654321''))"

definition SYMBOLS :: jstring where
  "SYMBOLS = js ''pnbrqkPNBRQK''"

text \<open>
  The board of \<open>new Chess()\<close>: the starting position, with the kings on e1 and e8.
\<close>

definition start_position :: "(jstring \<times> piece) list" where
  "start_position =
     zip (map (\<lambda>f. f # js ''8'') cols) (map (\<lambda>t. \<lparr>type = [t], color = js ''b''\<rparr>) (js ''rnbqkbnr''))
     @ map (\<lambda>f. (f # js ''7'', \<lparr>type = js ''p'', color = js ''b''\<rparr>)) cols
     @ map (\<lambda>f. (f # js ''2'', \<lparr>type = js ''p'', color = js ''w''\<rparr>)) cols
     @ zip (map (\<lambda>f. f # js ''1'') cols) (map (\<lambda>t. \<lparr>type = [t], color = js ''w''\<rparr>) (js ''rnbqkbnr''))"

definition chess_start :: chess_board where
  "chess_start =
     \<lparr>board = map_of start_position,
      kings = [js ''w'' \<mapsto> js ''e1'', js ''b'' \<mapsto> js ''e8'']\<rparr>"

definition chess_clear :: chess_board where
  "chess_clear = \<lparr>board = Map.empty, kings = Map.empty\<rparr>"

definition chess_get :: "chess_board \<Rightarrow> jstring \<Rightarrow> piece option" where
  "chess_get ch sq = (if sq \<in> set SQUARES then board ch sq else None)"

definition chess_put :: "chess_board \<Rightarrow> piece \<Rightarrow> jstring \<Rightarrow> bool \<times> chess_board" where
  "chess_put ch p sq =
     (if \<not> str_includes SYMBOLS (toLowerCase (type p)) then (False, ch)
      else if sq \<notin> set SQUARES then (False, ch)
      else if type p = js ''k'' \<and> \<not> (kings ch (color p) = None \<or> kings ch (color p) = Some sq)
        then (False, ch)
      else (True, ch\<lparr>board := (board ch)(sq \<mapsto> p),
                      kings := (if type p = js ''k'' then (kings ch)(color p \<mapsto> sq) else kings ch)\<rparr>))"

text \<open>The squares that hold a piece.\<close>

definition occupied :: "chess_board \<Rightarrow> jstring list" where
  "occupied ch = filter (\<lambda>sq. chess_get ch sq \<noteq> None) SQUARES"

text \<open>
  Parsing of notation and loading of sprites belong to collaborators: \<open>load\<close> and
  \<open>load_pgn\<close> answer whether the notation was accepted and give the board they leave,
  \<open>loadImage\<close> answers whether the sprite file could be loaded.
\<close>

record collaborators =
  load :: "jstring \<Rightarrow> chess_board \<Rightarrow> bool \<times> chess_board"
  load_pgn :: "jstring \<Rightarrow> chess_board \<Rightarrow> bool \<times> chess_board"
  loadImage :: "jstring \<Rightarrow> bool"

section \<open>The generator object\<close>

record arrow =
  from' :: jstring
  to' :: jstring
  color :: jstring

text \<open>
  The fields of a \<open>ChessImageGenerator\<close> instance. The constructor does not assign
  \<open>this.arrows\<close>: the field is \<open>undefined\<close> (here \<open>None\<close>) until \<open>addArrows\<close> is called.
\<close>

record generator =
  chess :: chess_board
  highlightedSquares :: "jstring list"
  arrows :: "arrow list option"
  size' :: rat
  padding :: padding
  light :: jstring
  dark :: jstring
  highlight :: jstring
  style :: jstring
  flipped :: bool
  ready :: bool

text \<open>The options object of the constructor; an omitted property is \<open>None\<close>.\<close>

record options =
  o_size :: "rat option"
  o_padding :: "padding option"
  o_light :: "jstring option"
  o_dark :: "jstring option"
  o_highlight :: "jstring option"
  o_style :: "jstring option"
  o_flipped :: "bool option"

datatype error = Error string | TypeError string | ImageError jstring

text \<open>\<open>a || b\<close> on an optional number, string, array and boolean.\<close>

definition or_number :: "rat option \<Rightarrow> rat \<Rightarrow> rat" where
  "or_number v d = (case v of None \<Rightarrow> d | Some x \<Rightarrow> if x = 0 then d else x)"

definition or_string :: "jstring option \<Rightarrow> jstring \<Rightarrow> jstring" where
  "or_string v d = (case v of None \<Rightarrow> d | Some x \<Rightarrow> if x = [] then d else x)"

definition or_array :: "padding option \<Rightarrow> padding \<Rightarrow> padding" where
  "or_array v d = (case v of None \<Rightarrow> d | Some x \<Rightarrow> x)"

definition or_boolean :: "bool option \<Rightarrow> bool \<Rightarrow> bool" where
  "or_boolean v d = (case v of None \<Rightarrow> d | Some x \<Rightarrow> if x then x else d)"

definition ChessImageGenerator :: "config \<Rightarrow> options \<Rightarrow> generator" where
  "ChessImageGenerator cfg opts =
     \<lparr>chess = chess_start,
      highlightedSquares = [],
      arrows = None,
      size' = or_number (o_size opts) (defaultSize cfg),
      padding = or_array (o_padding opts) (defaultPadding cfg),
      light = or_string (o_light opts) (defaultLight cfg),
      dark = or_string (o_dark opts) (defaultDark cfg),
      highlight = or_string (o_highlight opts) (defaultHighlight cfg),
      style = or_string (o_style opts) (defaultStyle cfg),
      flipped = or_boolean (o_flipped opts) False,
      ready = False\<rparr>"

subsection \<open>Loading a position\<close>

definition loadPGN :: "collaborators \<Rightarrow> generator \<Rightarrow> jstring \<Rightarrow> (error + unit) \<times> generator" where
  "loadPGN co g pgn =
     (let (ok, ch) = load_pgn co pgn (chess g) in
      if \<not> ok then (Inl (Error ''PGN could not be read successfully''), g\<lparr>chess := ch\<rparr>)
      else (Inr (), g\<lparr>chess := ch, ready := True\<rparr>))"

definition loadFEN :: "collaborators \<Rightarrow> generator \<Rightarrow> jstring \<Rightarrow> (error + unit) \<times> generator" where
  "loadFEN co g fen =
     (let (ok, ch) = load co fen (chess g) in
      if \<not> ok then (Inl (Error ''FEN could not be read successfully''), g\<lparr>chess := ch\<rparr>)
      else (Inr (), g\<lparr>chess := ch, ready := True\<rparr>))"

definition addArrows :: "generator \<Rightarrow> arrow list \<Rightarrow> generator" where
  "addArrows g as = g\<lparr>arrows := Some as\<rparr>"

text \<open>
  \<open>cols[k] + n\<close>: the file letter followed by the number; when \<open>cols[k]\<close> is \<open>undefined\<close>
  the sum is NaN, which as a square key reads \<open>NaN\<close>.
\<close>

definition square_name :: "nat option \<Rightarrow> int \<Rightarrow> jstring" where
  "square_name f n = (case f of None \<Rightarrow> js ''NaN'' | Some c \<Rightarrow> c # num_str n)"

text \<open>The test of \<open>loadArray\<close> on a cell, and the piece it puts.\<close>

definition is_piece_code :: "jstring \<Rightarrow> bool" where
  "is_piece_code c = (c \<noteq> [] \<and> str_includes black (toLowerCase c))"

definition piece_of_code :: "jstring \<Rightarrow> piece" where
  "piece_of_code c = \<lparr>type = toLowerCase c, color = (if str_includes white c then js ''w'' else js ''b'')\<rparr>"

text \<open>The inner loop over \<open>j\<close> (the cells left in row \<open>i\<close>) and the outer loop over \<open>i\<close>.\<close>

fun loadArray_row :: "chess_board \<Rightarrow> nat \<Rightarrow> nat \<Rightarrow> jstring list \<Rightarrow> chess_board" where
  "loadArray_row ch i j [] = ch"
| "loadArray_row ch i j (c # cs) =
     loadArray_row
       (if is_piece_code c
        then snd (chess_put ch (piece_of_code c) (square_name (char_at cols (int j)) (8 - int i)))
        else ch)
       i (Suc j) cs"

fun loadArray_rows :: "chess_board \<Rightarrow> nat \<Rightarrow> jstring list list \<Rightarrow> chess_board" where
  "loadArray_rows ch i [] = ch"
| "loadArray_rows ch i (r # rs) = loadArray_rows (loadArray_row ch i 0 r) (Suc i) rs"

definition loadArray :: "generator \<Rightarrow> jstring list list \<Rightarrow> generator" where
  "loadArray g array = g\<lparr>chess := loadArray_rows chess_clear 0 array, ready := True\<rparr>"

definition highlightSquares :: "generator \<Rightarrow> jstring list \<Rightarrow> generator" where
  "highlightSquares g array = g\<lparr>highlightedSquares := array\<rparr>"

subsection \<open>The calls of \<open>put\<close> that \<open>loadArray\<close> issues\<close>

text \<open>
  The square of cell \<open>(i, j)\<close> of the grid, \<open>cols[j] + (8 - i)\<close>; one call of \<open>put\<close>
  with its result dropped; and the calls of the inner and the outer loop in the order
  they are issued.
\<close>

definition cell_square :: "nat \<Rightarrow> nat \<Rightarrow> jstring" where
  "cell_square i j = square_name (char_at cols (int j)) (8 - int i)"

definition put_piece :: "jstring \<times> piece \<Rightarrow> chess_board \<Rightarrow> chess_board" where
  "put_piece sp ch = snd (chess_put ch (snd sp) (fst sp))"

fun row_puts :: "nat \<Rightarrow> nat \<Rightarrow> jstring list \<Rightarrow> (jstring \<times> piece) list" where
  "row_puts i j [] = []"
| "row_puts i j (c # cs) =
     (if is_piece_code c then [(cell_square i j, piece_of_code c)] else []) @ row_puts i (Suc j) cs"

fun grid_puts :: "nat \<Rightarrow> jstring list list \<Rightarrow> (jstring \<times> piece) list" where
  "grid_puts i [] = []"
| "grid_puts i (r # rs) = row_puts i 0 r @ grid_puts (Suc i) rs"

text \<open>The number of non-empty cells of a grid.\<close>

definition non_empty_cells :: "jstring list list \<Rightarrow> nat" where
  "non_empty_cells array = length (filter (\<lambda>c. c \<noteq> []) (concat array))"

subsection \<open>Rendering\<close>

text \<open>
  The drawing surface is a collaborator; a render is modelled by the canvas dimensions and
  the list of drawing calls in the order they are issued.
\<close>

datatype draw_op =
  FillRect rat rat rat rat jstring
| DrawImage jstring rat rat rat rat
| DrawArrow "rat option" "rat option" "rat option" "rat option" rat jstring

record canvas =
  width :: rat
  height :: rat
  ops :: "draw_op list"

definition row :: "bool \<Rightarrow> int \<Rightarrow> int" where
  "row fl r = (if fl then r + 1 else 7 - r + 1)"

definition col :: "bool \<Rightarrow> int \<Rightarrow> int" where
  "col fl c = (if fl then c else 7 - c)"

definition coords :: "bool \<Rightarrow> int \<Rightarrow> int \<Rightarrow> jstring" where
  "coords fl i j = square_name (char_at cols (col fl j)) (row fl i)"

definition dark_fill :: "generator \<Rightarrow> int \<Rightarrow> int \<Rightarrow> draw_op list" where
  "dark_fill g i j =
     (if (i + j) mod 2 = 0
      then [FillRect
              ((size' g / 8) * of_int (7 - j + 1) - size' g / 8 + pad_at (padding g) 3)
              ((size' g / 8) * of_int i + pad_at (padding g) 0)
              (size' g / 8)
              (size' g / 8)
              (dark g)]
      else [])"

definition highlight_fill :: "generator \<Rightarrow> int \<Rightarrow> int \<Rightarrow> draw_op list" where
  "highlight_fill g i j =
     (if coords (flipped g) i j \<in> set (highlightedSquares g)
      then [FillRect
              ((size' g / 8) * of_int (7 - j + 1) - size' g / 8 + pad_at (padding g) 3)
              ((size' g / 8) * of_int i + pad_at (padding g) 0)
              (size' g / 8)
              (size' g / 8)
              (highlight g)]
      else [])"

text \<open>The sprite of the piece on the cell's square; a sprite that fails to load ends the render.\<close>

definition image_path :: "config \<Rightarrow> generator \<Rightarrow> piece \<Rightarrow> jstring" where
  "image_path cfg g p =
     js ''resources/'' @ style g @ js ''/'' @
     (case filePaths cfg (piece.color p @ type p) of None \<Rightarrow> js ''undefined'' | Some f \<Rightarrow> f) @
     js ''.png''"

definition piece_image :: "collaborators \<Rightarrow> config \<Rightarrow> generator \<Rightarrow> int \<Rightarrow> int \<Rightarrow> error + draw_op list" where
  "piece_image co cfg g i j =
     (case chess_get (chess g) (coords (flipped g) i j) of
        None \<Rightarrow> Inr []
      | Some p \<Rightarrow>
          if type p \<noteq> [] \<and> str_includes black (toLowerCase (type p))
          then (if loadImage co (image_path cfg g p)
                then Inr [DrawImage (image_path cfg g p)
                            ((size' g / 8) * of_int (7 - j + 1) - size' g / 8 + pad_at (padding g) 3)
                            ((size' g / 8) * of_int i + pad_at (padding g) 0)
                            (size' g / 8)
                            (size' g / 8)]
                else Inl (ImageError (image_path cfg g p)))
          else Inr [])"

definition draw_cell :: "collaborators \<Rightarrow> config \<Rightarrow> generator \<Rightarrow> int \<Rightarrow> int \<Rightarrow> error + draw_op list" where
  "draw_cell co cfg g i j =
     (case piece_image co cfg g i j of
        Inl e \<Rightarrow> Inl e
      | Inr im \<Rightarrow> Inr (dark_fill g i j @ highlight_fill g i j @ im))"

text \<open>The two nested loops, \<open>i\<close> from 0 to 7 and inside it \<open>j\<close> from 0 to 7.\<close>

definition cells :: "(int \<times> int) list" where
  "cells = concat (map (\<lambda>i. map (\<lambda>j. (i, j)) [0..7]) [0..7])"

fun draw_cells :: "collaborators \<Rightarrow> config \<Rightarrow> generator \<Rightarrow> (int \<times> int) list \<Rightarrow> error + draw_op list" where
  "draw_cells co cfg g [] = Inr []"
| "draw_cells co cfg g ((i, j) # cs) =
     (case draw_cell co cfg g i j of
        Inl e \<Rightarrow> Inl e
      | Inr a \<Rightarrow> (case draw_cells co cfg g cs of Inl e \<Rightarrow> Inl e | Inr b \<Rightarrow> Inr (a @ b)))"

text \<open>
  Modelled from the spec: the module \<open>arrow\<close> with \<open>col2n\<close> and \<open>drawArrow\<close> is not among
  the sources. The spec has the endpoint of an arrow resolved by the inverse of the column
  mapping, so \<open>col2n\<close> sends a file letter to its index in \<open>cols\<close>; \<open>drawArrow\<close> is one
  drawing call.
\<close>

definition col2n :: "nat \<Rightarrow> int option" where
  "col2n c = map_of (zip cols [0..7]) c"

definition rc2xy :: "generator \<Rightarrow> int \<Rightarrow> rat" where
  "rc2xy g a = of_int a * (size' g / 8) - (size' g / 8) / 2"

text \<open>\<open>row(sq[1] - 1)\<close> and \<open>8 - col(col2n[sq[0]])\<close> for an end \<open>sq\<close> of an arrow.\<close>

definition arrow_R :: "bool \<Rightarrow> jstring \<Rightarrow> int option" where
  "arrow_R fl sq = map_option (\<lambda>n. row fl (n - 1)) (Option.bind (char_at sq 1) to_number)"

definition arrow_C :: "bool \<Rightarrow> jstring \<Rightarrow> int option" where
  "arrow_C fl sq = map_option (\<lambda>n. 8 - col fl n) (Option.bind (char_at sq 0) col2n)"

definition draw_arrow :: "generator \<Rightarrow> arrow \<Rightarrow> draw_op" where
  "draw_arrow g a =
     DrawArrow
       (map_option (\<lambda>fromC. rc2xy g fromC + pad_at (padding g) 3) (arrow_C (flipped g) (from' a)))
       (map_option (\<lambda>fromR. rc2xy g fromR + pad_at (padding g) 0) (arrow_R (flipped g) (from' a)))
       (map_option (\<lambda>toC. rc2xy g toC + pad_at (padding g) 3) (arrow_C (flipped g) (to' a)))
       (map_option (\<lambda>toR. rc2xy g toR + pad_at (padding g) 0) (arrow_R (flipped g) (to' a)))
       ((size' g / 8) / 10)
       (arrow.color a)"

text \<open>
  \<open>generateBuffer\<close> returns its result together with the generator as it leaves it.
  Reading \<open>forEach\<close> of an \<open>undefined\<close> arrow list is a TypeError.
\<close>

definition generateBuffer :: "collaborators \<Rightarrow> config \<Rightarrow> generator \<Rightarrow> (error + canvas) \<times> generator" where
  "generateBuffer co cfg g =
     (if \<not> ready g then (Inl (Error ''Load a position first''), g)
      else
        (case draw_cells co cfg g cells of
           Inl e \<Rightarrow> (Inl e, g)
         | Inr cs \<Rightarrow>
             (case arrows g of
                None \<Rightarrow> (Inl (TypeError ''Cannot read properties of undefined''), g)
              | Some as \<Rightarrow>
                  (Inr \<lparr>width = size' g + pad_at (padding g) 1 + pad_at (padding g) 3,
                        height = size' g + pad_at (padding g) 0 + pad_at (padding g) 2,
                        ops =
                          FillRect 0 0
                            (size' g + pad_at (padding g) 1 + pad_at (padding g) 3)
                            (size' g + pad_at (padding g) 0 + pad_at (padding g) 2)
                            (light g)
                          # cs @ map (draw_arrow g) as\<rparr>,
                   g))))"

text \<open>\<open>generatePNG\<close> hands the buffer and the path to the file system.\<close>

definition generatePNG ::
  "collaborators \<Rightarrow> config \<Rightarrow> generator \<Rightarrow> jstring \<Rightarrow> (error + jstring \<times> canvas) \<times> generator" where
  "generatePNG co cfg g pngPath =
     (if \<not> ready g then (Inl (Error ''Load a position first''), g)
      else
        (case generateBuffer co cfg g of
           (Inl e, g') \<Rightarrow> (Inl e, g')
         | (Inr buffer, g') \<Rightarrow> (Inr (pngPath, buffer), g')))"

subsection \<open>Sequences of calls on one instance\<close>

text \<open>
  The public methods, and the instance each leaves. A caller may catch the error of a call
  and go on using the instance, so the run continues after a failed call.
\<close>

datatype call =
  LoadPGN jstring
| LoadFEN jstring
| LoadArray "jstring list list"
| AddArrows "arrow list"
| HighlightSquares "jstring list"
| GenerateBuffer
| GeneratePNG jstring

fun perform :: "collaborators \<Rightarrow> config \<Rightarrow> generator \<Rightarrow> call \<Rightarrow> generator" where
  "perform co cfg g (LoadPGN pgn) = snd (loadPGN co g pgn)"
| "perform co cfg g (LoadFEN fen) = snd (loadFEN co g fen)"
| "perform co cfg g (LoadArray array) = loadArray g array"
| "perform co cfg g (AddArrows as) = addArrows g as"
| "perform co cfg g (HighlightSquares array) = highlightSquares g array"
| "perform co cfg g GenerateBuffer = snd (generateBuffer co cfg g)"
| "perform co cfg g (GeneratePNG pngPath) = snd (generatePNG co cfg g pngPath)"

text \<open>A call is a load call that succeeds on the instance \<open>g\<close>.\<close>

fun load_succeeds :: "collaborators \<Rightarrow> generator \<Rightarrow> call \<Rightarrow> bool" where
  "load_succeeds co g (LoadPGN pgn) = (fst (loadPGN co g pgn) = Inr ())"
| "load_succeeds co g (LoadFEN fen) = (fst (loadFEN co g fen) = Inr ())"
| "load_succeeds co g (LoadArray array) = True"
| "load_succeeds co g c = False"

fun run :: "collaborators \<Rightarrow> config \<Rightarrow> generator \<Rightarrow> call list \<Rightarrow> generator" where
  "run co cfg g [] = g"
| "run co cfg g (c # cs) = run co cfg (perform co cfg g c) cs"

fun some_load_succeeded :: "collaborators \<Rightarrow> config \<Rightarrow> generator \<Rightarrow> call list \<Rightarrow> bool" where
  "some_load_succeeded co cfg g [] = False"
| "some_load_succeeded co cfg g (c # cs) =
     (load_succeeds co g c \<or> some_load_succeeded co cfg (perform co cfg g c) cs)"

subsection \<open>The pixel rectangle of a cell, as the specification words it\<close>

text \<open>
  \<open>x = (size/8) \<times> (7 - j + 1) - size/8 + padding_left\<close>, \<open>y = (size/8) \<times> i + padding_top\<close>,
  width and height \<open>size/8\<close>; the padding is in the order top, right, bottom, left.
\<close>

definition cell_rect :: "generator \<Rightarrow> int \<Rightarrow> int \<Rightarrow> rat \<times> rat \<times> rat \<times> rat" where
  "cell_rect g i j =
     (case padding g of Padding p_top p_right p_bottom p_left \<Rightarrow>
        ((size' g / 8) * (7 - of_int j + 1) - size' g / 8 + p_left,
         (size' g / 8) * of_int i + p_top,
         size' g / 8,
         size' g / 8))"

text \<open>The rectangle a drawing call fills or draws into.\<close>

fun rect_of :: "draw_op \<Rightarrow> (rat \<times> rat \<times> rat \<times> rat) option" where
  "rect_of (FillRect x y w h c) = Some (x, y, w, h)"
| "rect_of (DrawImage f x y w h) = Some (x, y, w, h)"
| "rect_of (DrawArrow x1 y1 x2 y2 t c) = None"

text \<open>The sprite drawing call of a cell, if there is one.\<close>

definition sprite_ops :: "collaborators \<Rightarrow> config \<Rightarrow> generator \<Rightarrow> int \<Rightarrow> int \<Rightarrow> draw_op list" where
  "sprite_ops co cfg g i j = (case piece_image co cfg g i j of Inl e \<Rightarrow> [] | Inr im \<Rightarrow> im)"

section \<open>Concrete collaborators and options\<close>

text \<open>
  A configuration module, collaborators that reject every notation and load every sprite,
  the empty options object, and the options of the repository's own test script.
\<close>

definition example_config :: config where
  "example_config =
     \<lparr>defaultSize = 480, defaultPadding = Padding 0 0 0 0, defaultLight = js ''white'',
      defaultDark = js ''gray'', defaultHighlight = js ''red'', defaultStyle = js ''merida'',
      filePaths = (\<lambda>k. Some k)\<rparr>"

definition example_collaborators :: collaborators where
  "example_collaborators =
     \<lparr>load = (\<lambda>fen ch. (False, ch)), load_pgn = (\<lambda>pgn ch. (False, ch)),
      loadImage = (\<lambda>f. True)\<rparr>"

definition no_options :: options where
  "no_options =
     \<lparr>o_size = None, o_padding = None, o_light = None, o_dark = None,
      o_highlight = None, o_style = None, o_flipped = None\<rparr>"

definition test_options :: options where
  "test_options =
     \<lparr>o_size = Some 1316, o_padding = Some (Padding 288 44 268 44), o_light = Some (js ''#ccc''),
      o_dark = Some (js ''#aaa''), o_highlight = Some (js ''#ff0000''), o_style = None, o_flipped = None\<rparr>"

section \<open>Evaluation and helper lemmas\<close>

lemma length_js [simp]: "length (js s) = length s"
  by (simp add: js_def)

lemma upto_0_7: "[0..7] = [0, 1, 2, 3, 4, 5, 6, 7 :: int]"
  by code_simp

lemma num_str_digit: "0 \<le> k \<Longrightarrow> k < 10 \<Longrightarrow> num_str k = [digit_char (nat k)]"
  by (simp add: num_str_def nat_str.simps)

lemmas eval_defs = coords_def square_name_def row_def col_def char_at_def cols_def
  num_str_digit digit_char_def js_def

lemma cell_index_cases: "0 \<le> i \<Longrightarrow> i \<le> 7 \<Longrightarrow> i \<in> {0, 1, 2, 3, 4, 5, 6, 7 :: int}"
  by auto

lemma coords_a1:
  "0 \<le> i \<Longrightarrow> i \<le> 7 \<Longrightarrow> 0 \<le> j \<Longrightarrow> j \<le> 7 \<Longrightarrow> coords False i j = js ''a1'' \<longleftrightarrow> i = 7 \<and> j = 7"
  using cell_index_cases [of i] cell_index_cases [of j] by (auto simp: eval_defs)

lemma coords_h1:
  "0 \<le> i \<Longrightarrow> i \<le> 7 \<Longrightarrow> 0 \<le> j \<Longrightarrow> j \<le> 7 \<Longrightarrow> coords False i j = js ''h1'' \<longleftrightarrow> i = 7 \<and> j = 0"
  using cell_index_cases [of i] cell_index_cases [of j] by (auto simp: eval_defs)

lemma set_squares_gen:
  "set (concat (map (\<lambda>r. map (\<lambda>f. [f, r]) fs) rs)) = {[f, r] | f r. f \<in> set fs \<and> r \<in> set rs}"
  by auto

lemma SQUARES_iff:
  "s \<in> set SQUARES \<longleftrightarrow> (\<exists>f r. s = [f, r] \<and> f \<in> set (js ''abcdefgh'') \<and> r \<in> set (js ''87654321''))"
  unfolding SQUARES_def set_squares_gen by blast

lemma rank_to_number:
  "r \<in> set (js ''87654321'') \<Longrightarrow> \<exists>n. to_number r = Some n \<and> 1 \<le> n \<and> n \<le> 8 \<and> num_str n = [r]"
  by (auto simp: js_def to_number_def num_str_digit digit_char_def)

lemma file_to_number:
  "f \<in> set (js ''abcdefgh'') \<Longrightarrow> \<exists>n. col2n f = Some n \<and> 0 \<le> n \<and> n \<le> 7 \<and> char_at cols n = Some f"
  by (auto simp: js_def col2n_def cols_def char_at_def upto_0_7)

subsection \<open>The render loop\<close>

lemma cells_eval:
  "cells =
     [(0, 0), (0, 1), (0, 2), (0, 3), (0, 4), (0, 5), (0, 6), (0, 7),
      (1, 0), (1, 1), (1, 2), (1, 3), (1, 4), (1, 5), (1, 6), (1, 7),
      (2, 0), (2, 1), (2, 2), (2, 3), (2, 4), (2, 5), (2, 6), (2, 7),
      (3, 0), (3, 1), (3, 2), (3, 3), (3, 4), (3, 5), (3, 6), (3, 7),
      (4, 0), (4, 1), (4, 2), (4, 3), (4, 4), (4, 5), (4, 6), (4, 7),
      (5, 0), (5, 1), (5, 2), (5, 3), (5, 4), (5, 5), (5, 6), (5, 7),
      (6, 0), (6, 1), (6, 2), (6, 3), (6, 4), (6, 5), (6, 6), (6, 7),
      (7, 0), (7, 1), (7, 2), (7, 3), (7, 4), (7, 5), (7, 6), (7, 7)]"
  by (simp add: cells_def upto_0_7)

lemma length_cells: "length cells = 64"
  by (simp add: cells_eval)

lemma cells_nth:
  "0 \<le> i \<Longrightarrow> i \<le> 7 \<Longrightarrow> 0 \<le> j \<Longrightarrow> j \<le> 7 \<Longrightarrow> cells ! nat (8 * i + j) = (i, j)"
  using cell_index_cases [of i] cell_index_cases [of j] by (auto simp: cells_eval)

lemma cells_mem:
  "0 \<le> i \<Longrightarrow> i \<le> 7 \<Longrightarrow> 0 \<le> j \<Longrightarrow> j \<le> 7 \<Longrightarrow> (i, j) \<in> set cells"
proof -
  assume a: "0 \<le> i" "i \<le> 7" "0 \<le> j" "j \<le> 7"
  then have "nat (8 * i + j) < length cells" by (simp add: length_cells)
  then have "cells ! nat (8 * i + j) \<in> set cells" by (rule nth_mem)
  then show ?thesis using cells_nth [OF a] by simp
qed

lemma draw_cells_error:
  "draw_cells co cfg g cs = Inl e \<Longrightarrow> \<exists>f. e = ImageError f"
proof (induction cs)
  case Nil
  then show ?case by simp
next
  case (Cons c cs)
  obtain i j where c: "c = (i, j)" by (cases c)
  show ?case using Cons
    by (auto simp: c draw_cell_def piece_image_def split: sum.splits option.splits if_splits)
qed

lemma draw_cells_succeeds:
  "\<forall>f. loadImage co f \<Longrightarrow> \<exists>os. draw_cells co cfg g cs = Inr os"
proof (induction cs)
  case Nil
  then show ?case by simp
next
  case (Cons c cs)
  obtain i j where c: "c = (i, j)" by (cases c)
  have "\<exists>a. draw_cell co cfg g i j = Inr a"
    using Cons.prems by (simp add: draw_cell_def piece_image_def split: option.splits)
  then show ?case using Cons by (auto simp: c)
qed

lemma draw_cells_ops:
  "draw_cells co cfg g cs = Inr os \<Longrightarrow>
     os = concat (map (\<lambda>(i, j). dark_fill g i j @ highlight_fill g i j @ sprite_ops co cfg g i j) cs)"
proof (induction cs arbitrary: os)
  case Nil
  then show ?case by simp
next
  case (Cons c cs)
  obtain i j where c: "c = (i, j)" by (cases c)
  from Cons.prems obtain a b where
    ab: "draw_cell co cfg g i j = Inr a" "draw_cells co cfg g cs = Inr b" "os = a @ b"
    by (auto simp: c split: sum.splits)
  have "a = dark_fill g i j @ highlight_fill g i j @ sprite_ops co cfg g i j"
    using ab(1) by (auto simp: draw_cell_def sprite_ops_def split: sum.splits)
  then show ?case using Cons.IH [OF ab(2)] ab(3) by (simp add: c)
qed

lemma draw_cells_sprite:
  "draw_cells co cfg g cs = Inr os \<Longrightarrow> (i, j) \<in> set cs \<Longrightarrow> \<exists>im. piece_image co cfg g i j = Inr im"
proof (induction cs arbitrary: os)
  case Nil
  then show ?case by simp
next
  case (Cons c cs)
  obtain i' j' where c: "c = (i', j')" by (cases c)
  from Cons.prems(1) obtain a b where
    ab: "draw_cell co cfg g i' j' = Inr a" "draw_cells co cfg g cs = Inr b"
    by (auto simp: c split: sum.splits)
  show ?case
  proof (cases "(i, j) = c")
    case True
    then show ?thesis using ab(1) by (auto simp: c draw_cell_def split: sum.splits)
  next
    case False
    then have "(i, j) \<in> set cs" using Cons.prems(2) by simp
    then show ?thesis using Cons.IH [OF ab(2)] by simp
  qed
qed

lemma cell_rect_source:
  "cell_rect g i j =
     ((size' g / 8) * of_int (7 - j + 1) - size' g / 8 + pad_at (padding g) 3,
      (size' g / 8) * of_int i + pad_at (padding g) 0, size' g / 8, size' g / 8)"
  by (cases "padding g") (simp add: cell_rect_def)

lemma dark_fill_rect:
  "cell_rect g i j = (x, y, w, h) \<Longrightarrow>
     dark_fill g i j = (if even (i + j) then [FillRect x y w h (dark g)] else [])"
  unfolding cell_rect_source by (auto simp: dark_fill_def even_iff_mod_2_eq_zero)

lemma highlight_fill_rect:
  "cell_rect g i j = (x, y, w, h) \<Longrightarrow>
     highlight_fill g i j =
       (if coords (flipped g) i j \<in> set (highlightedSquares g)
        then [FillRect x y w h (highlight g)] else [])"
  unfolding cell_rect_source by (auto simp: highlight_fill_def)

lemma sprite_ops_rect:
  "cell_rect g i j = (x, y, w, h) \<Longrightarrow> piece_image co cfg g i j = Inr im \<Longrightarrow>
     sprite_ops co cfg g i j =
       (case chess_get (chess g) (coords (flipped g) i j) of
          None \<Rightarrow> []
        | Some p \<Rightarrow>
            if type p \<noteq> [] \<and> str_includes black (toLowerCase (type p))
            then [DrawImage (image_path cfg g p) x y w h] else [])"
  unfolding cell_rect_source
  by (auto simp: sprite_ops_def piece_image_def split: option.splits if_splits)

lemma generateBuffer_ops:
  assumes "generateBuffer co cfg g = (Inr cv, g')"
  shows "width cv = size' g + pad_at (padding g) 3 + pad_at (padding g) 1
       \<and> height cv = size' g + pad_at (padding g) 0 + pad_at (padding g) 2
       \<and> (\<exists>as. arrows g = Some as
            \<and> ops cv = FillRect 0 0 (width cv) (height cv) (light g)
                # concat (map (\<lambda>(i, j). dark_fill g i j @ highlight_fill g i j
                                           @ sprite_ops co cfg g i j) cells)
                @ map (draw_arrow g) as)
       \<and> (\<forall>i j. (i, j) \<in> set cells \<longrightarrow> (\<exists>im. piece_image co cfg g i j = Inr im))"
proof -
  from assms obtain os as where
    os: "draw_cells co cfg g cells = Inr os" and as: "arrows g = Some as" and
    cv: "cv = \<lparr>width = size' g + pad_at (padding g) 1 + pad_at (padding g) 3,
               height = size' g + pad_at (padding g) 0 + pad_at (padding g) 2,
               ops = FillRect 0 0 (size' g + pad_at (padding g) 1 + pad_at (padding g) 3)
                       (size' g + pad_at (padding g) 0 + pad_at (padding g) 2) (light g)
                     # os @ map (draw_arrow g) as\<rparr>"
    by (auto simp: generateBuffer_def split: if_splits sum.splits option.splits)
  show ?thesis
    using draw_cells_ops [OF os] as cv draw_cells_sprite [OF os] by simp
qed

lemma generateBuffer_snd: "snd (generateBuffer co cfg g) = g"
  by (simp add: generateBuffer_def split: sum.splits option.splits)

lemma generatePNG_snd: "snd (generatePNG co cfg g p) = g"
  using generateBuffer_snd [of co cfg g]
  by (auto simp: generatePNG_def split: prod.splits sum.splits)

lemma generateBuffer_not_ready:
  "\<not> ready g \<Longrightarrow> fst (generateBuffer co cfg g) = Inl (Error ''Load a position first'')"
  by (simp add: generateBuffer_def)

lemma generatePNG_not_ready:
  "\<not> ready g \<Longrightarrow> fst (generatePNG co cfg g p) = Inl (Error ''Load a position first'')"
  by (simp add: generatePNG_def)

lemma generateBuffer_ready:
  "ready g \<Longrightarrow> fst (generateBuffer co cfg g) \<noteq> Inl (Error m)"
  by (auto simp: generateBuffer_def split: sum.splits option.splits dest: draw_cells_error)

lemma generatePNG_ready:
  "ready g \<Longrightarrow> fst (generatePNG co cfg g p) \<noteq> Inl (Error m)"
  using generateBuffer_ready [of g co cfg m]
  by (auto simp: generatePNG_def split: prod.splits sum.splits)

lemma generateBuffer_undefined_arrows:
  "ready g \<Longrightarrow> arrows g = None \<Longrightarrow> \<forall>f. loadImage co f \<Longrightarrow>
     fst (generateBuffer co cfg g) = Inl (TypeError ''Cannot read properties of undefined'')"
  using draw_cells_succeeds [of co cfg g cells] by (auto simp: generateBuffer_def)

lemma generateBuffer_no_arrows:
  "arrows g = None \<Longrightarrow> \<exists>e. fst (generateBuffer co cfg g) = Inl e"
  by (simp add: generateBuffer_def split: sum.splits)

lemma generateBuffer_succeeds:
  "ready g \<Longrightarrow> arrows g = Some as \<Longrightarrow> \<forall>f. loadImage co f \<Longrightarrow>
     \<exists>cv. generateBuffer co cfg g = (Inr cv, g)"
  using draw_cells_succeeds [of co cfg g cells] by (auto simp: generateBuffer_def)

subsection \<open>Readiness and the arrow list along a sequence of calls\<close>

lemma ready_perform: "ready (perform co cfg g c) = (ready g \<or> load_succeeds co g c)"
  by (cases c)
    (auto simp: loadPGN_def loadFEN_def loadArray_def addArrows_def highlightSquares_def
      generateBuffer_snd generatePNG_snd case_prod_beta)

lemma ready_run: "ready (run co cfg g cs) = (ready g \<or> some_load_succeeded co cfg g cs)"
  by (induction cs arbitrary: g) (auto simp: ready_perform)

lemma arrows_perform: "\<forall>as. c \<noteq> AddArrows as \<Longrightarrow> arrows (perform co cfg g c) = arrows g"
  by (cases c)
    (auto simp: loadPGN_def loadFEN_def loadArray_def highlightSquares_def
      generateBuffer_snd generatePNG_snd case_prod_beta)

lemma arrows_run: "\<forall>as. AddArrows as \<notin> set cs \<Longrightarrow> arrows (run co cfg g cs) = arrows g"
proof (induction cs arbitrary: g)
  case Nil
  then show ?case by simp
next
  case (Cons c cs)
  have "\<forall>as. c \<noteq> AddArrows as" "\<forall>as. AddArrows as \<notin> set cs" using Cons.prems by auto
  then show ?case using Cons.IH [of "perform co cfg g c"] by (simp add: arrows_perform)
qed

subsection \<open>Arrow endpoints\<close>

lemma arrow_indices:
  assumes "s \<in> set SQUARES"
  shows "\<exists>R C. arrow_R fl s = Some R \<and> arrow_C fl s = Some C
       \<and> 0 \<le> R - 1 \<and> R - 1 \<le> 7 \<and> 0 \<le> 8 - C \<and> 8 - C \<le> 7
       \<and> coords fl (R - 1) (8 - C) = s"
proof -
  from assms obtain f r where
    s: "s = [f, r]" and f: "f \<in> set (js ''abcdefgh'')" and r: "r \<in> set (js ''87654321'')"
    unfolding SQUARES_iff by blast
  obtain n where n: "to_number r = Some n" "1 \<le> n" "n \<le> 8" "num_str n = [r]"
    using rank_to_number [OF r] by blast
  obtain m where m: "col2n f = Some m" "0 \<le> m" "m \<le> 7" "char_at cols m = Some f"
    using file_to_number [OF f] by blast
  have R: "arrow_R fl s = Some (row fl (n - 1))"
    by (simp add: arrow_R_def s char_at_def n)
  have C: "arrow_C fl s = Some (8 - col fl m)"
    by (simp add: arrow_C_def s char_at_def m)
  have rr: "row fl (row fl (n - 1) - 1) = n"
    by (simp add: row_def)
  have cc: "col fl (8 - (8 - col fl m)) = m"
    by (simp add: col_def)
  have "coords fl (row fl (n - 1) - 1) (8 - (8 - col fl m)) = s"
    unfolding coords_def rr cc by (simp add: square_name_def m n s)
  moreover have "0 \<le> row fl (n - 1) - 1" "row fl (n - 1) - 1 \<le> 7"
      "0 \<le> 8 - (8 - col fl m)" "8 - (8 - col fl m) \<le> 7"
    using n m by (auto simp: row_def col_def)
  ultimately show ?thesis using R C by blast
qed

lemma arrow_centre:
  "cell_rect g (R - 1) (8 - C) = (x, y, w, h) \<Longrightarrow>
     rc2xy g C + pad_at (padding g) 3 = x + w / 2 \<and> rc2xy g R + pad_at (padding g) 0 = y + h / 2"
  by (cases "padding g") (auto simp: cell_rect_def rc2xy_def field_simps)

subsection \<open>Loading a grid\<close>

lemma loadArray_row_fold: "loadArray_row ch i j cs = fold put_piece (row_puts i j cs) ch"
  by (induction cs arbitrary: ch j) (simp_all add: put_piece_def cell_square_def)

lemma loadArray_rows_fold: "loadArray_rows ch i rs = fold put_piece (grid_puts i rs) ch"
  by (induction rs arbitrary: ch i) (simp_all add: loadArray_row_fold)

lemma length_row_puts: "length (row_puts i j cs) = length (filter is_piece_code cs)"
  by (induction cs arbitrary: j) simp_all

lemma length_grid_puts: "length (grid_puts i rs) = length (filter is_piece_code (concat rs))"
  by (induction rs arbitrary: i) (simp_all add: length_row_puts)

lemma set_row_puts:
  "set (row_puts i j cs) = {(cell_square i (j + k), piece_of_code (cs ! k)) | k. k < length cs \<and> is_piece_code (cs ! k)}"
proof (induction cs arbitrary: j)
  case Nil
  then show ?case by simp
next
  case (Cons c cs)
  have "{(cell_square i (j + k), piece_of_code ((c # cs) ! k)) | k. k < length (c # cs) \<and> is_piece_code ((c # cs) ! k)}
      = (if is_piece_code c then {(cell_square i j, piece_of_code c)} else {})
        \<union> {(cell_square i (Suc j + k), piece_of_code (cs ! k)) | k. k < length cs \<and> is_piece_code (cs ! k)}"
    (is "?L = ?R")
  proof (intro set_eqI iffI)
    fix x assume "x \<in> ?L"
    then obtain k where k: "x = (cell_square i (j + k), piece_of_code ((c # cs) ! k))"
        "k < length (c # cs)" "is_piece_code ((c # cs) ! k)" by blast
    show "x \<in> ?R"
    proof (cases k)
      case 0
      then show ?thesis using k by simp
    next
      case (Suc k')
      then show ?thesis using k by auto
    qed
  next
    fix x assume "x \<in> ?R"
    then consider "is_piece_code c" "x = (cell_square i j, piece_of_code c)"
      | k where "x = (cell_square i (Suc j + k), piece_of_code (cs ! k))" "k < length cs" "is_piece_code (cs ! k)"
      by (auto split: if_splits)
    then show "x \<in> ?L"
    proof cases
      case 1
      then have "x = (cell_square i (j + 0), piece_of_code ((c # cs) ! 0)) \<and> 0 < length (c # cs) \<and> is_piece_code ((c # cs) ! 0)"
        by simp
      then show ?thesis by blast
    next
      case 2
      then have "x = (cell_square i (j + Suc k), piece_of_code ((c # cs) ! Suc k)) \<and> Suc k < length (c # cs) \<and> is_piece_code ((c # cs) ! Suc k)"
        by simp
      then show ?thesis by blast
    qed
  qed
  then show ?case using Cons.IH [of "Suc j"] by simp
qed

lemma set_grid_puts:
  "set (grid_puts i rs) =
     {(cell_square (i + k) j, piece_of_code (rs ! k ! j)) | k j.
        k < length rs \<and> j < length (rs ! k) \<and> is_piece_code (rs ! k ! j)}"
proof (induction rs arbitrary: i)
  case Nil
  then show ?case by simp
next
  case (Cons r rs)
  have "{(cell_square (i + k) j, piece_of_code ((r # rs) ! k ! j)) | k j.
        k < length (r # rs) \<and> j < length ((r # rs) ! k) \<and> is_piece_code ((r # rs) ! k ! j)}
      = {(cell_square i j, piece_of_code (r ! j)) | j. j < length r \<and> is_piece_code (r ! j)}
        \<union> {(cell_square (Suc i + k) j, piece_of_code (rs ! k ! j)) | k j.
        k < length rs \<and> j < length (rs ! k) \<and> is_piece_code (rs ! k ! j)}"
    (is "?L = ?A \<union> ?B")
  proof (intro set_eqI iffI)
    fix x assume "x \<in> ?L"
    then obtain k j where k: "x = (cell_square (i + k) j, piece_of_code ((r # rs) ! k ! j))"
        "k < length (r # rs)" "j < length ((r # rs) ! k)" "is_piece_code ((r # rs) ! k ! j)" by blast
    show "x \<in> ?A \<union> ?B"
    proof (cases k)
      case 0
      then have "x = (cell_square i j, piece_of_code (r ! j)) \<and> j < length r \<and> is_piece_code (r ! j)"
        using k by simp
      then have "x \<in> ?A" by blast
      then show ?thesis by blast
    next
      case (Suc k')
      then have "x = (cell_square (Suc i + k') j, piece_of_code (rs ! k' ! j)) \<and>
        k' < length rs \<and> j < length (rs ! k') \<and> is_piece_code (rs ! k' ! j)" using k by simp
      then have "x \<in> ?B" by blast
      then show ?thesis by blast
    qed
  next
    fix x assume "x \<in> ?A \<union> ?B"
    then consider j where "x = (cell_square i j, piece_of_code (r ! j))" "j < length r" "is_piece_code (r ! j)"
      | k j where "x = (cell_square (Suc i + k) j, piece_of_code (rs ! k ! j))"
          "k < length rs" "j < length (rs ! k)" "is_piece_code (rs ! k ! j)"
      by auto
    then show "x \<in> ?L"
    proof cases
      case 1
      then have "x = (cell_square (i + 0) j, piece_of_code ((r # rs) ! 0 ! j)) \<and> 0 < length (r # rs)
         \<and> j < length ((r # rs) ! 0) \<and> is_piece_code ((r # rs) ! 0 ! j)"
        by simp
      then show ?thesis by blast
    next
      case 2
      then have "x = (cell_square (i + Suc k) j, piece_of_code ((r # rs) ! Suc k ! j)) \<and> Suc k < length (r # rs)
         \<and> j < length ((r # rs) ! Suc k) \<and> is_piece_code ((r # rs) ! Suc k ! j)"
        by simp
      then show ?thesis by blast
    qed
  qed
  then show ?case using Cons.IH [of "Suc i"] by (simp add: set_row_puts)
qed

lemma cell_square_eq:
  "i < 8 \<Longrightarrow> j < 8 \<Longrightarrow> cell_square i j = [js ''abcdefgh'' ! j, js ''0123456789'' ! (8 - i)]"
proof -
  assume a: "i < 8" "j < 8"
  have "num_str (8 - int i) = [digit_char (nat (8 - int i))]"
    using a by (intro num_str_digit) auto
  moreover have "nat (8 - int i) = 8 - i" using a by simp
  ultimately show ?thesis
    using a by (simp add: cell_square_def square_name_def char_at_def cols_def digit_char_def)
qed

lemma cell_square_valid: "i < 8 \<Longrightarrow> j < 8 \<Longrightarrow> cell_square i j \<in> set SQUARES"
proof -
  assume a: "i < 8" "j < 8"
  have "js ''abcdefgh'' ! j \<in> set (js ''abcdefgh'')" using a by (intro nth_mem) simp
  moreover have "8 - i \<in> {1, 2, 3, 4, 5, 6, 7, 8}" using a by auto
  then have "js ''0123456789'' ! (8 - i) \<in> set (js ''87654321'')" by (auto simp: js_def)
  ultimately show ?thesis unfolding SQUARES_iff cell_square_eq [OF a] by blast
qed

lemma cell_square_inj:
  assumes "i < 8" "j < 8" "i' < 8" "j' < 8" "cell_square i j = cell_square i' j'"
  shows "i = i' \<and> j = j'"
proof -
  have e: "js ''abcdefgh'' ! j = js ''abcdefgh'' ! j'"
      "js ''0123456789'' ! (8 - i) = js ''0123456789'' ! (8 - i')"
    using assms by (simp_all add: cell_square_eq)
  have "distinct (js ''abcdefgh'')" by (simp add: js_def)
  then have "j = j'" using e(1) assms(2,4) by (simp add: nth_eq_iff_index_eq)
  have "distinct (js ''0123456789'')" by (simp add: js_def)
  moreover have "8 - i < length (js ''0123456789'')" "8 - i' < length (js ''0123456789'')"
    by simp_all
  ultimately have "8 - i = 8 - i'" using e(2) nth_eq_iff_index_eq by blast
  then have "i = i'" using assms(1,3) by simp
  then show ?thesis using \<open>j = j'\<close> by simp
qed

lemma fst_row_puts:
  "x \<in> set (row_puts i j cs) \<Longrightarrow> \<exists>k < length cs. fst x = cell_square i (j + k)"
  unfolding set_row_puts by auto

lemma fst_grid_puts:
  "x \<in> set (grid_puts i rs) \<Longrightarrow> \<exists>k j. k < length rs \<and> j < length (rs ! k) \<and> fst x = cell_square (i + k) j"
  unfolding set_grid_puts by fastforce

lemma distinct_row_puts:
  "i < 8 \<Longrightarrow> j + length cs \<le> 8 \<Longrightarrow> distinct (map fst (row_puts i j cs))"
proof (induction cs arbitrary: j)
  case Nil
  then show ?case by simp
next
  case (Cons c cs)
  have "cell_square i j \<notin> fst ` set (row_puts i (Suc j) cs)"
  proof
    assume "cell_square i j \<in> fst ` set (row_puts i (Suc j) cs)"
    then obtain x where x: "x \<in> set (row_puts i (Suc j) cs)" and e: "cell_square i j = fst x"
      by (rule imageE)
    obtain k where k: "k < length cs" "fst x = cell_square i (Suc j + k)"
      using fst_row_puts [OF x] by blast
    have b: "j < 8" "Suc j + k < 8" using Cons.prems(2) k(1) by simp_all
    have "i = i \<and> j = Suc j + k"
      using Cons.prems(1) b(1) Cons.prems(1) b(2) by (rule cell_square_inj) (simp add: e k(2))
    then show False by simp
  qed
  moreover have "distinct (map fst (row_puts i (Suc j) cs))"
    using Cons.prems by (intro Cons.IH) simp_all
  ultimately show ?case by simp
qed

lemma distinct_grid_puts:
  "i + length rs \<le> 8 \<Longrightarrow> \<forall>r \<in> set rs. length r \<le> 8 \<Longrightarrow> distinct (map fst (grid_puts i rs))"
proof (induction rs arbitrary: i)
  case Nil
  then show ?case by simp
next
  case (Cons r rs)
  have i: "i < 8" and r: "length r \<le> 8" using Cons.prems by auto
  have "fst ` set (row_puts i 0 r) \<inter> fst ` set (grid_puts (Suc i) rs) = {}"
  proof (rule ccontr)
    assume "fst ` set (row_puts i 0 r) \<inter> fst ` set (grid_puts (Suc i) rs) \<noteq> {}"
    then obtain x y where x: "x \<in> set (row_puts i 0 r)" and y: "y \<in> set (grid_puts (Suc i) rs)"
      and xy: "fst x = fst y" by auto
    obtain j where j: "j < length r" "fst x = cell_square i (0 + j)"
      using fst_row_puts [OF x] by blast
    obtain k j' where k: "k < length rs" "j' < length (rs ! k)" "fst y = cell_square (Suc i + k) j'"
      using fst_grid_puts [OF y] by blast
    have l: "length (rs ! k) \<le> 8" using Cons.prems(2) k(1) by simp
    have b: "j < 8" "Suc i + k < 8" "j' < 8" using j(1) r k(1,2) l Cons.prems(1) by simp_all
    have "cell_square i j = cell_square (Suc i + k) j'" using j(2) k(3) xy by simp
    with i b(1) b(2) b(3) have "i = Suc i + k \<and> j = j'" by (rule cell_square_inj)
    then show False by simp
  qed
  moreover have "distinct (map fst (row_puts i 0 r))"
    using distinct_row_puts [of i 0 r] i r by simp
  moreover have "distinct (map fst (grid_puts (Suc i) rs))"
    using Cons.IH [of "Suc i"] Cons.prems by simp
  ultimately show ?case by simp
qed

lemma valid_grid_puts:
  "i + length rs \<le> 8 \<Longrightarrow> \<forall>r \<in> set rs. length r \<le> 8 \<Longrightarrow> x \<in> set (grid_puts i rs) \<Longrightarrow>
     fst x \<in> set SQUARES"
proof -
  assume a: "i + length rs \<le> 8" "\<forall>r \<in> set rs. length r \<le> 8" "x \<in> set (grid_puts i rs)"
  obtain k j where k: "k < length rs" "j < length (rs ! k)" "fst x = cell_square (i + k) j"
    using fst_grid_puts [OF a(3)] by blast
  have "length (rs ! k) \<le> 8" using a(2) k(1) by simp
  then show ?thesis using cell_square_valid [of "i + k" j] k a(1) by simp
qed

lemma lower_unit_k: "lower_unit c = 107 \<longleftrightarrow> c = 107 \<or> c = 75 \<or> c = kelvin"
  by (auto simp: lower_unit_def kelvin_def)

lemma str_includes_single: "str_includes s [c] \<longleftrightarrow> c \<in> set s"
proof
  assume "str_includes s [c]"
  then obtain k where "take (Suc 0) (drop k s) = [c]"
    unfolding str_includes_def list_ex_iff by auto
  then have "c \<in> set (take (Suc 0) (drop k s))" by simp
  then show "c \<in> set s" by (meson in_set_dropD in_set_takeD)
next
  assume "c \<in> set s"
  then obtain k where k: "k < length s" "s ! k = c" by (auto simp: in_set_conv_nth)
  then have "take (Suc 0) (drop k s) = [c]"
    using Cons_nth_drop_Suc [of k s] by (metis take_Suc_Cons take_0)
  moreover have "k \<in> set [0..<Suc (length s)]" using k by simp
  ultimately show "str_includes s [c]"
    unfolding str_includes_def list_ex_iff by (metis length_Cons list.size(3))
qed

lemma king_code:
  "type (piece_of_code c) = js ''k'' \<longleftrightarrow> c = js ''k'' \<or> c = js ''K'' \<or> c = [kelvin]"
proof -
  have "map lower_unit c = [107] \<longleftrightarrow> c = [107] \<or> c = [75] \<or> c = [kelvin]"
    by (cases c) (auto simp: lower_unit_k)
  then show ?thesis by (simp add: piece_of_code_def toLowerCase_def js_def)
qed

lemma king_color:
  "piece.color (piece_of_code (js ''K'')) = js ''w''"
  "piece.color (piece_of_code (js ''k'')) = js ''b''"
  "piece.color (piece_of_code [kelvin]) = js ''b''"
  by (simp_all add: piece_of_code_def str_includes_single white_def js_def kelvin_def)

lemma piece_code_single:
  "is_piece_code [x] \<longleftrightarrow> x \<in> set (js ''pbnrqkPBNRQK'') \<or> x = kelvin"
  by (auto simp: is_piece_code_def toLowerCase_def str_includes_single black_def lower_unit_def
      js_def kelvin_def)

lemma piece_code_symbol:
  assumes "is_piece_code c" "length c \<le> 1"
  shows "str_includes SYMBOLS (toLowerCase (type (piece_of_code c)))"
proof -
  from assms obtain x where c: "c = [x]"
    by (cases c) (auto simp: is_piece_code_def)
  have "x \<in> set (js ''pbnrqkPBNRQK'') \<or> x = kelvin"
    using assms(1) unfolding c piece_code_single .
  then have "x = 112 \<or> x = 98 \<or> x = 110 \<or> x = 114 \<or> x = 113 \<or> x = 107
      \<or> x = 80 \<or> x = 66 \<or> x = 78 \<or> x = 82 \<or> x = 81 \<or> x = 75 \<or> x = 8490"
    by (auto simp: js_def kelvin_def)
  then have "lower_unit (lower_unit x) \<in> set SYMBOLS"
    by (elim disjE) (simp_all add: lower_unit_def kelvin_def SYMBOLS_def js_def)
  then have "str_includes SYMBOLS [lower_unit (lower_unit x)]"
    unfolding str_includes_single .
  then show ?thesis
    by (simp add: c piece_of_code_def toLowerCase_def)
qed

lemma put_piece_ok:
  assumes "str_includes SYMBOLS (toLowerCase (type p))" "sq \<in> set SQUARES"
    "type p = js ''k'' \<longrightarrow> kings ch (piece.color p) = None"
  shows "put_piece (sq, p) ch =
     ch\<lparr>board := (board ch)(sq \<mapsto> p),
        kings := (if type p = js ''k'' then (kings ch)(piece.color p \<mapsto> sq) else kings ch)\<rparr>"
  using assms by (cases "type p = js ''k''") (simp_all add: put_piece_def chess_put_def)

lemma fold_put_piece:
  assumes "\<forall>x \<in> set ps. fst x \<in> set SQUARES \<and> str_includes SYMBOLS (toLowerCase (type (snd x)))"
    "distinct (map fst ps)"
    "distinct (map (\<lambda>x. piece.color (snd x)) (filter (\<lambda>x. type (snd x) = js ''k'') ps))"
    "\<forall>x \<in> set ps. type (snd x) = js ''k'' \<longrightarrow> kings ch (piece.color (snd x)) = None"
  shows "board (fold put_piece ps ch) = board ch ++ map_of ps"
  using assms
proof (induction ps arbitrary: ch)
  case Nil
  then show ?case by simp
next
  case (Cons x ps)
  obtain sq p where x: "x = (sq, p)" by (cases x)
  let ?ch = "ch\<lparr>board := (board ch)(sq \<mapsto> p),
        kings := (if type p = js ''k'' then (kings ch)(piece.color p \<mapsto> sq) else kings ch)\<rparr>"
  have put: "put_piece x ch = ?ch"
    unfolding x using Cons.prems(1,4) by (intro put_piece_ok) (simp_all add: x)
  have k: "\<forall>y \<in> set ps. type (snd y) = js ''k'' \<longrightarrow> kings ?ch (piece.color (snd y)) = None"
  proof (intro ballI impI)
    fix y assume y: "y \<in> set ps" "type (snd y) = js ''k''"
    have n: "kings ch (piece.color (snd y)) = None" using Cons.prems(4) y by simp
    show "kings ?ch (piece.color (snd y)) = None"
    proof (cases "type p = js ''k''")
      case True
      then have "piece.color p \<notin> (\<lambda>x. piece.color (snd x)) ` set (filter (\<lambda>x. type (snd x) = js ''k'') ps)"
        using Cons.prems(3) by (simp add: x)
      then have "piece.color p \<noteq> piece.color (snd y)" using y by auto
      then show ?thesis using n True by simp
    next
      case False
      then show ?thesis using n by simp
    qed
  qed
  have d: "distinct (map (\<lambda>x. piece.color (snd x)) (filter (\<lambda>x. type (snd x) = js ''k'') ps))"
    using Cons.prems(3) by (simp split: if_splits)
  have ih: "board (fold put_piece ps ?ch) = board ?ch ++ map_of ps"
    using Cons.prems(1,2) d k by (intro Cons.IH) simp_all
  have nd: "sq \<notin> dom (map_of ps)"
    using Cons.prems(2) by (simp add: x dom_map_of_conv_image_fst)
  have "board (fold put_piece (x # ps) ch) = board (fold put_piece ps ?ch)"
    by (simp add: put)
  also have "\<dots> = (board ch)(sq \<mapsto> p) ++ map_of ps"
    using ih by simp
  also have "\<dots> = (board ch ++ map_of ps)(sq \<mapsto> p)"
    using nd by (rule map_add_upd_left)
  also have "\<dots> = board ch ++ (map_of ps)(sq \<mapsto> p)"
    by (rule map_add_upd [symmetric])
  also have "(map_of ps)(sq \<mapsto> p) = map_of (x # ps)"
    by (simp add: x)
  finally show ?case .
qed

lemma snd_row_puts: "map snd (row_puts i j cs) = map piece_of_code (filter is_piece_code cs)"
  by (induction cs arbitrary: j) simp_all

lemma snd_grid_puts: "map snd (grid_puts i rs) = map piece_of_code (filter is_piece_code (concat rs))"
  by (induction rs arbitrary: i) (simp_all add: snd_row_puts)

lemma king_colors_distinct:
  "count_list cs (js ''K'') \<le> 1 \<Longrightarrow> count_list cs (js ''k'') + count_list cs [kelvin] \<le> 1 \<Longrightarrow>
     distinct (map (\<lambda>c. piece.color (piece_of_code c))
       (filter (\<lambda>c. c = js ''k'' \<or> c = js ''K'' \<or> c = [kelvin]) cs))"
proof (induction cs)
  case Nil
  then show ?case by simp
next
  case (Cons c cs)
  let ?P = "\<lambda>c. c = js ''k'' \<or> c = js ''K'' \<or> c = [kelvin]"
  have wb: "js ''w'' \<noteq> js ''b''" by (simp add: js_def)
  have kK: "js ''k'' \<noteq> js ''K''" "[kelvin] \<noteq> js ''K''"
    by (simp_all add: js_def kelvin_def)
  have ih: "distinct (map (\<lambda>c. piece.color (piece_of_code c)) (filter ?P cs))"
    using Cons by (simp split: if_splits)
  show ?case
  proof (cases "c = js ''K''")
    case True
    then have "count_list cs (js ''K'') = 0" using Cons.prems(1) by simp
    then have "js ''K'' \<notin> set cs" by (simp add: count_list_0_iff)
    then have "\<forall>d \<in> set (filter ?P cs). piece.color (piece_of_code d) = js ''b''"
      by (auto simp: king_color)
    then have "js ''w'' \<notin> (\<lambda>c. piece.color (piece_of_code c)) ` set (filter ?P cs)"
      using wb by force
    then show ?thesis using ih True by (simp add: king_color)
  next
    case False
    show ?thesis
    proof (cases "c = js ''k'' \<or> c = [kelvin]")
      case True
      then have "count_list cs (js ''k'') = 0" "count_list cs [kelvin] = 0"
        using Cons.prems(2) by (auto split: if_splits)
      then have "js ''k'' \<notin> set cs" "[kelvin] \<notin> set cs" by (simp_all add: count_list_0_iff)
      then have "\<forall>d \<in> set (filter ?P cs). piece.color (piece_of_code d) = js ''w''"
        by (auto simp: king_color)
      then have "js ''b'' \<notin> (\<lambda>c. piece.color (piece_of_code c)) ` set (filter ?P cs)"
        using wb by force
      then show ?thesis using ih True kK by (auto simp: king_color)
    next
      case False
      then show ?thesis using ih \<open>c \<noteq> js ''K''\<close> by simp
    qed
  qed
qed

lemma distinct_squares_gen:
  "distinct fs \<Longrightarrow> distinct rs \<Longrightarrow> distinct (concat (map (\<lambda>r. map (\<lambda>f. [f, r]) fs) rs))"
  by (induction rs) (auto simp: distinct_map inj_on_def)

lemma distinct_SQUARES: "distinct SQUARES"
  unfolding SQUARES_def by (rule distinct_squares_gen) (simp_all add: js_def)

lemma count_list_filter_le: "count_list (filter P xs) x \<le> count_list xs x"
  by (induction xs) simp_all

lemma grid_puts_kings:
  assumes "count_list (concat rs) (js ''K'') \<le> 1"
    "count_list (concat rs) (js ''k'') + count_list (concat rs) [kelvin] \<le> 1"
  shows "distinct (map (\<lambda>x. piece.color (snd x))
    (filter (\<lambda>x. type (snd x) = js ''k'') (grid_puts i rs)))"
proof -
  let ?L = "filter is_piece_code (concat rs)"
  let ?P = "\<lambda>c. c = js ''k'' \<or> c = js ''K'' \<or> c = [kelvin]"
  have "map (\<lambda>x. piece.color (snd x)) (filter (\<lambda>x. type (snd x) = js ''k'') (grid_puts i rs))
      = map piece.color (filter (\<lambda>p. type p = js ''k'') (map snd (grid_puts i rs)))"
    by (simp add: filter_map comp_def)
  also have "\<dots> = map piece.color (filter (\<lambda>p. type p = js ''k'') (map piece_of_code ?L))"
    by (simp only: snd_grid_puts)
  also have "\<dots> = map (\<lambda>c. piece.color (piece_of_code c)) (filter ?P ?L)"
    by (simp add: filter_map comp_def king_code)
  finally have e:
    "map (\<lambda>x. piece.color (snd x)) (filter (\<lambda>x. type (snd x) = js ''k'') (grid_puts i rs))
      = map (\<lambda>c. piece.color (piece_of_code c)) (filter ?P ?L)" .
  have "count_list ?L (js ''K'') \<le> count_list (concat rs) (js ''K'')"
    "count_list ?L (js ''k'') \<le> count_list (concat rs) (js ''k'')"
    "count_list ?L [kelvin] \<le> count_list (concat rs) [kelvin]"
    by (rule count_list_filter_le)+
  then have "count_list ?L (js ''K'') \<le> 1" "count_list ?L (js ''k'') + count_list ?L [kelvin] \<le> 1"
    using assms by linarith+
  then show ?thesis unfolding e by (rule king_colors_distinct)
qed

lemma snd_grid_puts_symbol:
  assumes "\<forall>r \<in> set rs. \<forall>c \<in> set r. length c \<le> 1" "x \<in> set (grid_puts i rs)"
  shows "str_includes SYMBOLS (toLowerCase (type (snd x)))"
proof -
  from assms(2) obtain k j where k: "k < length rs" "j < length (rs ! k)"
      "is_piece_code (rs ! k ! j)" "x = (cell_square (i + k) j, piece_of_code (rs ! k ! j))"
    unfolding set_grid_puts by blast
  have "rs ! k \<in> set rs" "rs ! k ! j \<in> set (rs ! k)" using k by simp_all
  then have "length (rs ! k ! j) \<le> 1" using assms(1) by blast
  then show ?thesis using piece_code_symbol [OF k(3)] by (simp add: k(4))
qed

lemma board_loadArray:
  assumes "length array \<le> 8" "\<forall>r \<in> set array. length r \<le> 8"
    "\<forall>r \<in> set array. \<forall>c \<in> set r. length c \<le> 1"
    "count_list (concat array) (js ''K'') \<le> 1"
    "count_list (concat array) (js ''k'') + count_list (concat array) [kelvin] \<le> 1"
  shows "board (chess (loadArray g array)) = map_of (grid_puts 0 array)"
proof -
  have 1: "\<forall>x \<in> set (grid_puts 0 array).
      fst x \<in> set SQUARES \<and> str_includes SYMBOLS (toLowerCase (type (snd x)))"
    using valid_grid_puts [of 0 array] snd_grid_puts_symbol [OF assms(3), of _ 0] assms(1,2)
    by simp
  have 2: "distinct (map fst (grid_puts 0 array))"
    using distinct_grid_puts [of 0 array] assms(1,2) by simp
  have 3: "distinct (map (\<lambda>x. piece.color (snd x))
      (filter (\<lambda>x. type (snd x) = js ''k'') (grid_puts 0 array)))"
    using assms(4,5) by (rule grid_puts_kings)
  have 4: "\<forall>x \<in> set (grid_puts 0 array).
      type (snd x) = js ''k'' \<longrightarrow> kings chess_clear (piece.color (snd x)) = None"
    by (simp add: chess_clear_def)
  have "board (fold put_piece (grid_puts 0 array) chess_clear)
      = board chess_clear ++ map_of (grid_puts 0 array)"
    using 1 2 3 4 by (rule fold_put_piece)
  then show ?thesis
    by (simp add: loadArray_def loadArray_rows_fold chess_clear_def)
qed

lemma length_occupied:
  assumes "board ch = map_of ps" "distinct (map fst ps)" "\<forall>x \<in> set ps. fst x \<in> set SQUARES"
  shows "length (occupied ch) = length ps"
proof -
  have "occupied ch = filter (\<lambda>sq. map_of ps sq \<noteq> None) SQUARES"
    unfolding occupied_def by (rule filter_cong) (simp_all add: chess_get_def assms(1))
  then have "length (occupied ch) = card ({sq. map_of ps sq \<noteq> None} \<inter> set SQUARES)"
    using distinct_length_filter [OF distinct_SQUARES] by simp
  also have "{sq. map_of ps sq \<noteq> None} \<inter> set SQUARES = set (map fst ps)"
    using assms(3) by (auto simp: map_of_eq_None_iff)
  also have "card (set (map fst ps)) = length (map fst ps)"
    using assms(2) by (rule distinct_card)
  finally show ?thesis by simp
qed

lemma get_loadArray:
  assumes "length array \<le> 8" "\<forall>r \<in> set array. length r \<le> 8"
    "board ch = map_of (grid_puts 0 array)" "i < length array" "j < length (array ! i)"
  shows "chess_get ch (cell_square i j)
      = (if is_piece_code (array ! i ! j) then Some (piece_of_code (array ! i ! j)) else None)"
proof -
  have "length (array ! i) \<le> 8" using assms(2) nth_mem [OF assms(4)] by blast
  then have b: "i < 8" "j < 8" using assms(1,4,5) by simp_all
  have v: "cell_square i j \<in> set SQUARES" using b by (rule cell_square_valid)
  have d: "distinct (map fst (grid_puts 0 array))"
    using distinct_grid_puts [of 0 array] assms(1,2) by simp
  show ?thesis
  proof (cases "is_piece_code (array ! i ! j)")
    case True
    then have "(cell_square (0 + i) j, piece_of_code (array ! i ! j)) \<in> set (grid_puts 0 array)"
      unfolding set_grid_puts using assms(4,5) by blast
    then have "map_of (grid_puts 0 array) (cell_square i j) = Some (piece_of_code (array ! i ! j))"
      using d by simp
    then show ?thesis using True v by (simp add: chess_get_def assms(3))
  next
    case False
    have "cell_square i j \<notin> fst ` set (grid_puts 0 array)"
    proof
      assume "cell_square i j \<in> fst ` set (grid_puts 0 array)"
      then obtain x where x: "x \<in> set (grid_puts 0 array)" and e: "cell_square i j = fst x"
        by (rule imageE)
      from x obtain k j' where k: "k < length array" "j' < length (array ! k)"
          "is_piece_code (array ! k ! j')" "x = (cell_square (0 + k) j', piece_of_code (array ! k ! j'))"
        unfolding set_grid_puts by blast
      have "length (array ! k) \<le> 8" using assms(2) nth_mem [OF k(1)] by blast
      then have b': "k < 8" "j' < 8" using assms(1) k(1,2) by simp_all
      have "cell_square i j = cell_square k j'" using e k(4) by simp
      with b(1) b(2) b'(1) b'(2) have "i = k \<and> j = j'" by (rule cell_square_inj)
      then show False using False k(3) by simp
    qed
    then have "map_of (grid_puts 0 array) (cell_square i j) = None"
      by (simp add: map_of_eq_None_iff)
    then show ?thesis using False by (simp add: chess_get_def assms(3))
  qed
qed

lemma piece_of_code_single:
  "piece_of_code [x] =
     \<lparr>type = [lower_unit x], color = (if x \<in> set (js ''PBNRQK'') then js ''w'' else js ''b'')\<rparr>"
  by (simp add: piece_of_code_def toLowerCase_def str_includes_single white_def del: set_simps)

lemma block_in_ops:
  assumes "os = bg # concat (map f cells) @ rest" "0 \<le> i" "i \<le> 7" "0 \<le> j" "j \<le> 7"
    "b \<in> set (f (i, j))"
  shows "b \<in> set os"
proof -
  have "(i, j) \<in> set cells" using assms(2-5) by (rule cells_mem)
  then have "b \<in> set (concat (map f cells))" using assms(6) by auto
  then show ?thesis unfolding assms(1) by simp
qed

section \<open>The claims\<close>

text \<open>
  C1. The claim: on an instance with a loaded position on which \<open>addArrows\<close> was never
  called, \<open>generateBuffer\<close> succeeds and draws no arrows. The code does otherwise: the
  constructor leaves \<open>arrows\<close> undefined, so after any sequence of calls without
  \<open>addArrows\<close> the render fails; when a position is loaded and every sprite loads, it
  fails with the TypeError of reading \<open>forEach\<close> of \<open>undefined\<close>.
\<close>

theorem generateBuffer_without_addArrows:
  assumes "\<forall>as. AddArrows as \<notin> set cs"
  shows "(\<exists>e. fst (generateBuffer co cfg (run co cfg (ChessImageGenerator cfg opts) cs)) = Inl e)
       \<and> (some_load_succeeded co cfg (ChessImageGenerator cfg opts) cs \<and> (\<forall>f. loadImage co f) \<longrightarrow>
            fst (generateBuffer co cfg (run co cfg (ChessImageGenerator cfg opts) cs))
              = Inl (TypeError ''Cannot read properties of undefined''))"
proof -
  have a: "arrows (run co cfg (ChessImageGenerator cfg opts) cs) = None"
    using arrows_run [OF assms] by (simp add: ChessImageGenerator_def)
  show ?thesis
    using generateBuffer_no_arrows [OF a] generateBuffer_undefined_arrows [OF _ a]
    by (auto simp: ready_run)
qed

theorem generateBuffer_without_addArrows_witness:
  "fst (generateBuffer example_collaborators example_config
      (loadArray (ChessImageGenerator example_config no_options) [[js ''K'']]))
     = Inl (TypeError ''Cannot read properties of undefined'')"
  using generateBuffer_without_addArrows
    [of "[LoadArray [[js ''K'']]]" example_collaborators example_config no_options]
  by (simp add: example_collaborators_def)

text \<open>
  C2. On an instance on which no load call has succeeded, \<open>generateBuffer\<close> and
  \<open>generatePNG\<close> fail with the error "Load a position first"; on an instance on which
  some load call (PGN, FEN or grid) has succeeded, \<open>ready\<close> holds and neither entry
  point fails with that error.
\<close>

theorem render_readiness:
  "(\<not> some_load_succeeded co cfg (ChessImageGenerator cfg opts) cs \<longrightarrow>
      fst (generateBuffer co cfg (run co cfg (ChessImageGenerator cfg opts) cs))
        = Inl (Error ''Load a position first'')
      \<and> fst (generatePNG co cfg (run co cfg (ChessImageGenerator cfg opts) cs) pngPath)
        = Inl (Error ''Load a position first''))
   \<and> (some_load_succeeded co cfg (ChessImageGenerator cfg opts) cs \<longrightarrow>
      ready (run co cfg (ChessImageGenerator cfg opts) cs)
      \<and> fst (generateBuffer co cfg (run co cfg (ChessImageGenerator cfg opts) cs))
        \<noteq> Inl (Error ''Load a position first'')
      \<and> fst (generatePNG co cfg (run co cfg (ChessImageGenerator cfg opts) cs) pngPath)
        \<noteq> Inl (Error ''Load a position first''))"
proof -
  have "ready (run co cfg (ChessImageGenerator cfg opts) cs)
      = some_load_succeeded co cfg (ChessImageGenerator cfg opts) cs"
    by (simp add: ready_run ChessImageGenerator_def)
  then show ?thesis
    using generateBuffer_not_ready generatePNG_not_ready generateBuffer_ready generatePNG_ready
    by metis
qed

theorem render_readiness_witness:
  "fst (generateBuffer example_collaborators example_config
      (run example_collaborators example_config (ChessImageGenerator example_config no_options)
         [HighlightSquares [js ''a1''], LoadFEN (js ''x''), AddArrows []]))
     = Inl (Error ''Load a position first'')
   \<and> ready (run example_collaborators example_config (ChessImageGenerator example_config no_options)
         [LoadFEN (js ''x''), LoadArray [[js ''K'']], LoadPGN (js ''y'')])"
  using render_readiness [of example_collaborators example_config no_options
      "[HighlightSquares [js ''a1''], LoadFEN (js ''x''), AddArrows []]"]
    render_readiness [of example_collaborators example_config no_options
      "[LoadFEN (js ''x''), LoadArray [[js ''K'']], LoadPGN (js ''y'')]"]
  by (simp add: example_collaborators_def loadFEN_def loadPGN_def)

text \<open>
  C3, as the claim states it: after \<open>loadArray\<close> the number of occupied squares is the
  number of non-empty cells of the grid. It is not for a cell that holds no piece letter
  (the test of \<open>loadArray\<close> skips it), for a second king of one colour (the rules engine
  refuses it), or for a cell beyond the eighth column (there is no such square).
\<close>

theorem loadArray_count_counterexample:
  "length (occupied (chess (loadArray (ChessImageGenerator example_config no_options) [[js ''x'']])))
     \<noteq> non_empty_cells [[js ''x'']]
   \<and> length (occupied (chess (loadArray (ChessImageGenerator example_config no_options)
        [[js ''K'', js ''K'']])))
     \<noteq> non_empty_cells [[js ''K'', js ''K'']]
   \<and> length (occupied (chess (loadArray (ChessImageGenerator example_config no_options)
        [[js ''p'', js ''p'', js ''p'', js ''p'', js ''p'', js ''p'', js ''p'', js ''p'', js ''p'']])))
     \<noteq> non_empty_cells
        [[js ''p'', js ''p'', js ''p'', js ''p'', js ''p'', js ''p'', js ''p'', js ''p'', js ''p'']]"
  by code_simp

text \<open>
  C3, amended. For a grid of at most 8 rows of at most 8 cells, each cell empty or one
  character, that holds at most one code of a white king (\<open>K\<close>) and at most one code of a
  black king (\<open>k\<close>, or the Kelvin sign U+212A, which \<open>toLowerCase\<close> sends to \<open>k\<close>):
  \<open>loadArray\<close> leaves as many occupied squares as there are cells that hold a piece code
  (all the non-empty cells when every non-empty cell holds one); the square
  \<open>cols[j] + (8 - i)\<close> of cell \<open>(i, j)\<close> holds the piece of that cell, and is empty when
  the cell holds no piece code; a piece code of one character is one of the twelve piece
  letters or the Kelvin sign, and its piece has as kind the lowercased character, a piece
  letter, and is white exactly for an uppercase piece letter (the Kelvin sign gives a black
  king); and the board after loading a grid is the same whatever grid was loaded before.
\<close>

theorem loadArray_board:
  assumes "length array \<le> 8" "\<forall>r \<in> set array. length r \<le> 8"
    "\<forall>r \<in> set array. \<forall>c \<in> set r. length c \<le> 1"
    "count_list (concat array) (js ''K'') \<le> 1"
    "count_list (concat array) (js ''k'') + count_list (concat array) [kelvin] \<le> 1"
  shows "length (occupied (chess (loadArray g array))) = length (filter is_piece_code (concat array))
     \<and> ((\<forall>c \<in> set (concat array). c \<noteq> [] \<longrightarrow> is_piece_code c) \<longrightarrow>
          length (occupied (chess (loadArray g array))) = non_empty_cells array)
     \<and> (\<forall>i < length array. \<forall>j < length (array ! i).
          cell_square i j = [js ''abcdefgh'' ! j, js ''0123456789'' ! (8 - i)]
          \<and> chess_get (chess (loadArray g array)) (cell_square i j)
            = (if is_piece_code (array ! i ! j) then Some (piece_of_code (array ! i ! j)) else None))
     \<and> (\<forall>x. is_piece_code [x] = (x \<in> set (js ''pbnrqkPBNRQK'') \<or> x = kelvin)
          \<and> (is_piece_code [x] \<longrightarrow>
               lower_unit x \<in> set (js ''pbnrqk'')
               \<and> piece_of_code [x]
                 = \<lparr>type = [lower_unit x],
                    color = (if x \<in> set (js ''PBNRQK'') then js ''w'' else js ''b'')\<rparr>))
     \<and> chess (loadArray (loadArray g first) array) = chess (loadArray g array)"
proof -
  have b: "board (chess (loadArray g array)) = map_of (grid_puts 0 array)"
    using assms by (rule board_loadArray)
  have d: "distinct (map fst (grid_puts 0 array))"
    using distinct_grid_puts [of 0 array] assms(1,2) by simp
  have v: "\<forall>x \<in> set (grid_puts 0 array). fst x \<in> set SQUARES"
    using valid_grid_puts [of 0 array] assms(1,2) by simp
  have n: "length (occupied (chess (loadArray g array))) = length (filter is_piece_code (concat array))"
    using length_occupied [OF b d v] by (simp add: length_grid_puts)
  have "\<forall>c \<in> set (concat array). c \<noteq> [] \<longrightarrow> is_piece_code c \<Longrightarrow>
      filter is_piece_code (concat array) = filter (\<lambda>c. c \<noteq> []) (concat array)"
    by (rule filter_cong) (auto simp: is_piece_code_def)
  then have e: "(\<forall>c \<in> set (concat array). c \<noteq> [] \<longrightarrow> is_piece_code c) \<longrightarrow>
      length (occupied (chess (loadArray g array))) = non_empty_cells array"
    using n by (simp add: non_empty_cells_def)
  have c: "\<forall>i < length array. \<forall>j < length (array ! i).
      cell_square i j = [js ''abcdefgh'' ! j, js ''0123456789'' ! (8 - i)]
      \<and> chess_get (chess (loadArray g array)) (cell_square i j)
        = (if is_piece_code (array ! i ! j) then Some (piece_of_code (array ! i ! j)) else None)"
  proof (intro allI impI)
    fix i j assume ij: "i < length array" "j < length (array ! i)"
    have "length (array ! i) \<le> 8" using assms(2) nth_mem [OF ij(1)] by blast
    then have "i < 8" "j < 8" using assms(1) ij by simp_all
    then show "cell_square i j = [js ''abcdefgh'' ! j, js ''0123456789'' ! (8 - i)]
      \<and> chess_get (chess (loadArray g array)) (cell_square i j)
        = (if is_piece_code (array ! i ! j) then Some (piece_of_code (array ! i ! j)) else None)"
      using get_loadArray [OF assms(1,2) b ij] cell_square_eq by simp
  qed
  have l: "\<forall>x. is_piece_code [x] \<longrightarrow> lower_unit x \<in> set (js ''pbnrqk'')"
    by (simp add: is_piece_code_def toLowerCase_def str_includes_single black_def)
  have r: "chess (loadArray (loadArray g first) array) = chess (loadArray g array)"
    by (simp add: loadArray_def)
  show ?thesis
    using n e c r l piece_code_single piece_of_code_single by blast
qed

theorem loadArray_board_witness:
  "length (occupied (chess (loadArray (ChessImageGenerator example_config no_options)
      [[js ''K'', [], js ''p''], [[], js ''q'', [kelvin]]]))) = 4
   \<and> chess_get (chess (loadArray (ChessImageGenerator example_config no_options)
      [[js ''K'', [], js ''p''], [[], js ''q'', [kelvin]]])) (js ''a8'')
     = Some \<lparr>type = js ''k'', color = js ''w''\<rparr>
   \<and> chess (loadArray (loadArray (ChessImageGenerator example_config no_options) [[js ''r'']])
      [[js ''K'', [], js ''p''], [[], js ''q'', [kelvin]]])
     = chess (loadArray (ChessImageGenerator example_config no_options)
      [[js ''K'', [], js ''p''], [[], js ''q'', [kelvin]]])"
proof -
  let ?a = "[[js ''K'', [], js ''p''], [[], js ''q'', [kelvin]]]"
  let ?g = "ChessImageGenerator example_config no_options"
  have h: "length ?a \<le> 8" "\<forall>r \<in> set ?a. length r \<le> 8"
    "\<forall>r \<in> set ?a. \<forall>c \<in> set r. length c \<le> 1"
    "count_list (concat ?a) (js ''K'') \<le> 1"
    "count_list (concat ?a) (js ''k'') + count_list (concat ?a) [kelvin] \<le> 1"
    by (simp_all add: js_def kelvin_def)
  note t = loadArray_board [OF h, of ?g "[[js ''r'']]"]
  have p: "is_piece_code (js ''K'')" "is_piece_code (js ''p'')" "is_piece_code (js ''q'')"
      "is_piece_code [kelvin]"
    by (simp_all add: piece_code_single js_def)
  have q: "\<not> is_piece_code []"
    by (simp add: is_piece_code_def)
  have 1: "length (occupied (chess (loadArray ?g ?a))) = 4"
    using t p q by simp
  note c = t [THEN conjunct2, THEN conjunct2, THEN conjunct1, rule_format, of 0 0]
  have cc: "cell_square 0 0 = [js ''abcdefgh'' ! 0, js ''0123456789'' ! (8 - 0)]
      \<and> chess_get (chess (loadArray ?g ?a)) (cell_square 0 0)
        = (if is_piece_code (?a ! 0 ! 0) then Some (piece_of_code (?a ! 0 ! 0)) else None)"
    by (rule c) simp_all
  have e: "cell_square 0 0 = js ''a8''"
    using cc [THEN conjunct1] by (simp add: js_def)
  have v: "chess_get (chess (loadArray ?g ?a)) (cell_square 0 0) = Some (piece_of_code (js ''K''))"
    using cc [THEN conjunct2] p(1) by simp
  have k: "piece_of_code (js ''K'') = \<lparr>type = js ''k'', color = js ''w''\<rparr>"
    by (simp add: js_def piece_of_code_single lower_unit_def)
  have 2: "chess_get (chess (loadArray ?g ?a)) (js ''a8'')
      = Some \<lparr>type = js ''k'', color = js ''w''\<rparr>"
    using v unfolding e k .
  have 3: "chess (loadArray (loadArray ?g [[js ''r'']]) ?a) = chess (loadArray ?g ?a)"
    using t by blast
  show ?thesis using 1 2 3 by blast
qed

text \<open>
  C4. For a rendering row \<open>i\<close> and column \<open>j\<close> in 0..7: unflipped, row \<open>i\<close> is rank
  \<open>8 - i\<close> and column \<open>j\<close> is board column \<open>7 - j\<close>; flipped, row \<open>i\<close> is rank \<open>i + 1\<close>
  and column \<open>j\<close> is board column \<open>j\<close>; the square of the cell is the file letter at that
  board column in the list of the eight file letters, followed by the digit of the rank.
\<close>

theorem row_col_mapping:
  assumes "0 \<le> i" "i \<le> 7" "0 \<le> j" "j \<le> 7"
  shows "row False i = 8 - i \<and> col False j = 7 - j \<and> row True i = i + 1 \<and> col True j = j
       \<and> coords fl i j = [js ''abcdefgh'' ! nat (col fl j), digit_char (nat (row fl i))]"
proof -
  have r: "0 \<le> row fl i" "row fl i < 10" using assms by (auto simp: row_def)
  have c: "0 \<le> col fl j" "col fl j < 8" using assms by (auto simp: col_def)
  have "char_at cols (col fl j) = Some (js ''abcdefgh'' ! nat (col fl j))"
    using c by (simp add: char_at_def cols_def)
  then show ?thesis
    using num_str_digit [OF r] by (simp add: coords_def square_name_def row_def col_def)
qed

theorem row_col_mapping_witness:
  "row False 2 = 6 \<and> col False 5 = 2 \<and> row True 2 = 3 \<and> col True 5 = 5
   \<and> coords False 2 5 = js ''c6'' \<and> coords True 2 5 = js ''f3''"
  using row_col_mapping [of 2 5 False] row_col_mapping [of 2 5 True]
  by (simp add: digit_char_def js_def)

text \<open>
  C5, as the claim states it: the indices the arrow code computes for a square, fed to the
  forward mapping, give the square back. For a1 on the unflipped board the arrow code
  computes row 8 and column 1, and the forward mapping of (8, 1) is not a1.
\<close>

theorem arrow_forward_mapping_counterexample:
  "arrow_R False (js ''a1'') = Some 8 \<and> arrow_C False (js ''a1'') = Some 1
   \<and> coords False 8 1 \<noteq> js ''a1''"
  by (simp add: arrow_R_def arrow_C_def to_number_def col2n_def upto_0_7 eval_defs)

text \<open>
  C5, amended. For all squares \<open>s\<close> and \<open>t\<close> of the board and either flip state, the arrow
  code computes for each of them 1-based indices \<open>R\<close> and \<open>C\<close> of its pixel row and pixel
  column; the rendering cell drawn there is \<open>(R - 1, 8 - C)\<close>, it lies in 0..7, and the
  forward mapping sends it to the square. The drawing call issued for an arrow from \<open>s\<close>
  to \<open>t\<close> runs from the centre of the rectangle of the cell of \<open>s\<close> to the centre of the
  rectangle of the cell of \<open>t\<close> (in exact arithmetic), with the line width \<open>size/8/10\<close>
  and the colour of the arrow; and a render that succeeds issues, after the background and
  the drawing calls of the 64 cells, this call for each arrow of the list, in the order of
  the list.
\<close>

theorem arrow_round_trip:
  assumes "s \<in> set SQUARES" "t \<in> set SQUARES"
  shows "\<exists>R C R' C'.
         arrow_R (flipped g) s = Some R \<and> arrow_C (flipped g) s = Some C
       \<and> arrow_R (flipped g) t = Some R' \<and> arrow_C (flipped g) t = Some C'
       \<and> 0 \<le> R - 1 \<and> R - 1 \<le> 7 \<and> 0 \<le> 8 - C \<and> 8 - C \<le> 7
       \<and> 0 \<le> R' - 1 \<and> R' - 1 \<le> 7 \<and> 0 \<le> 8 - C' \<and> 8 - C' \<le> 7
       \<and> coords (flipped g) (R - 1) (8 - C) = s
       \<and> coords (flipped g) (R' - 1) (8 - C') = t
       \<and> (case cell_rect g (R - 1) (8 - C) of (x, y, w, h) \<Rightarrow>
          case cell_rect g (R' - 1) (8 - C') of (x', y', w', h') \<Rightarrow>
            draw_arrow g \<lparr>from' = s, to' = t, color = c\<rparr>
              = DrawArrow (Some (x + w / 2)) (Some (y + h / 2))
                  (Some (x' + w' / 2)) (Some (y' + h' / 2)) (size' g / 8 / 10) c)
       \<and> (\<forall>cv g'. generateBuffer co cfg g = (Inr cv, g') \<longrightarrow>
            (\<exists>as. arrows g = Some as
               \<and> ops cv = FillRect 0 0 (width cv) (height cv) (light g)
                   # concat (map (\<lambda>(i, j). dark_fill g i j @ highlight_fill g i j
                                              @ sprite_ops co cfg g i j) cells)
                   @ map (draw_arrow g) as))"
proof -
  obtain R C where rc: "arrow_R (flipped g) s = Some R" "arrow_C (flipped g) s = Some C"
      "0 \<le> R - 1" "R - 1 \<le> 7" "0 \<le> 8 - C" "8 - C \<le> 7"
      "coords (flipped g) (R - 1) (8 - C) = s"
    using arrow_indices [OF assms(1), of "flipped g"] by blast
  obtain R' C' where rc': "arrow_R (flipped g) t = Some R'" "arrow_C (flipped g) t = Some C'"
      "0 \<le> R' - 1" "R' - 1 \<le> 7" "0 \<le> 8 - C'" "8 - C' \<le> 7"
      "coords (flipped g) (R' - 1) (8 - C') = t"
    using arrow_indices [OF assms(2), of "flipped g"] by blast
  obtain x y w h where r: "cell_rect g (R - 1) (8 - C) = (x, y, w, h)"
    by (cases "cell_rect g (R - 1) (8 - C)") auto
  obtain x' y' w' h' where r': "cell_rect g (R' - 1) (8 - C') = (x', y', w', h')"
    by (cases "cell_rect g (R' - 1) (8 - C')") auto
  have d: "draw_arrow g \<lparr>from' = s, to' = t, color = c\<rparr>
      = DrawArrow (Some (x + w / 2)) (Some (y + h / 2))
          (Some (x' + w' / 2)) (Some (y' + h' / 2)) (size' g / 8 / 10) c"
    using arrow_centre [OF r] arrow_centre [OF r'] by (simp add: draw_arrow_def rc rc')
  have o: "\<forall>cv g'. generateBuffer co cfg g = (Inr cv, g') \<longrightarrow>
            (\<exists>as. arrows g = Some as
               \<and> ops cv = FillRect 0 0 (width cv) (height cv) (light g)
                   # concat (map (\<lambda>(i, j). dark_fill g i j @ highlight_fill g i j
                                              @ sprite_ops co cfg g i j) cells)
                   @ map (draw_arrow g) as)"
    using generateBuffer_ops by blast
  show ?thesis
    using rc rc' r r' d o by auto
qed

theorem arrow_round_trip_witness:
  "coords False 7 7 = js ''a1'' \<and> coords False 4 7 = js ''a4''
   \<and> draw_arrow (ChessImageGenerator example_config no_options)
        \<lparr>from' = js ''a1'', to' = js ''a4'', color = js ''red''\<rparr>
     = DrawArrow (Some 30) (Some 450) (Some 30) (Some 270) 6 (js ''red'')"
proof -
  let ?g = "ChessImageGenerator example_config no_options"
  have m: "js ''a1'' \<in> set SQUARES" "js ''a4'' \<in> set SQUARES"
    by (simp_all add: SQUARES_def js_def)
  have f: "flipped ?g = False" "size' ?g = 480" "padding ?g = Padding 0 0 0 0"
    by (simp_all add: ChessImageGenerator_def or_boolean_def or_number_def or_array_def
        no_options_def example_config_def)
  have v: "arrow_R False (js ''a1'') = Some 8" "arrow_C False (js ''a1'') = Some 1"
      "arrow_R False (js ''a4'') = Some 5" "arrow_C False (js ''a4'') = Some 1"
    by (simp_all add: arrow_R_def arrow_C_def to_number_def col2n_def upto_0_7 eval_defs)
  have r: "cell_rect ?g 7 7 = (0, 420, 60, 60)" "cell_rect ?g 4 7 = (0, 240, 60, 60)"
    by (simp_all add: cell_rect_def f)
  from arrow_round_trip [OF m, of ?g "js ''red''" example_collaborators example_config]
  show ?thesis
  proof (elim exE conjE)
    fix R C R' C'
    assume x: "arrow_R (flipped ?g) (js ''a1'') = Some R" "arrow_C (flipped ?g) (js ''a1'') = Some C"
       "arrow_R (flipped ?g) (js ''a4'') = Some R'" "arrow_C (flipped ?g) (js ''a4'') = Some C'"
       "coords (flipped ?g) (R - 1) (8 - C) = js ''a1''"
       "coords (flipped ?g) (R' - 1) (8 - C') = js ''a4''"
    and d: "case cell_rect ?g (R - 1) (8 - C) of (x, y, w, h) \<Rightarrow>
          case cell_rect ?g (R' - 1) (8 - C') of (x', y', w', h') \<Rightarrow>
            draw_arrow ?g \<lparr>from' = js ''a1'', to' = js ''a4'', color = js ''red''\<rparr>
              = DrawArrow (Some (x + w / 2)) (Some (y + h / 2))
                  (Some (x' + w' / 2)) (Some (y' + h' / 2)) (size' ?g / 8 / 10) (js ''red'')"
    have rc: "R = 8" "C = 1" "R' = 5" "C' = 1"
      using x(1-4) v unfolding f by simp_all
    have "draw_arrow ?g \<lparr>from' = js ''a1'', to' = js ''a4'', color = js ''red''\<rparr>
       = DrawArrow (Some 30) (Some 450) (Some 30) (Some 270) 6 (js ''red'')"
      using d unfolding rc by (simp add: r f)
    then show ?thesis
      using x(5,6) unfolding rc f by simp
  qed
qed

text \<open>
  C6. The dark fill of cell \<open>(i, j)\<close> is one fill of the rectangle of the cell with the
  dark colour when \<open>i + j\<close> is even and nothing otherwise, whatever the flip flag. The two
  loops visit the 64 cells \<open>(i, j)\<close> with \<open>i\<close> and \<open>j\<close> in 0..7, row by row; on the
  unflipped board the cell of a1 is \<open>(7, 7)\<close>, which gets the dark fill, and the cell of h1
  is \<open>(7, 0)\<close>, which gets none. A render that succeeds issues, after the background in the
  light colour, the dark fill, the highlight fill and the sprite of each cell in turn.
\<close>

theorem dark_fill_parity:
  "(case cell_rect g i j of (x, y, w, h) \<Rightarrow>
      dark_fill g i j = (if even (i + j) then [FillRect x y w h (dark g)] else []))
   \<and> dark_fill (g\<lparr>flipped := fl\<rparr>) i j = dark_fill g i j
   \<and> length cells = 64
   \<and> (0 \<le> i \<and> i \<le> 7 \<and> 0 \<le> j \<and> j \<le> 7 \<longrightarrow>
        cells ! nat (8 * i + j) = (i, j)
        \<and> (coords False i j = js ''a1'' \<longleftrightarrow> i = 7 \<and> j = 7)
        \<and> (coords False i j = js ''h1'' \<longleftrightarrow> i = 7 \<and> j = 0))
   \<and> (case cell_rect g 7 7 of (x, y, w, h) \<Rightarrow> dark_fill g 7 7 = [FillRect x y w h (dark g)])
   \<and> dark_fill g 7 0 = []
   \<and> (\<forall>cv g'. generateBuffer co cfg g = (Inr cv, g') \<longrightarrow>
        (\<exists>as. arrows g = Some as
           \<and> ops cv = FillRect 0 0 (width cv) (height cv) (light g)
               # concat (map (\<lambda>(i, j). dark_fill g i j @ highlight_fill g i j
                                          @ sprite_ops co cfg g i j) cells)
               @ map (draw_arrow g) as))"
proof -
  obtain x y w h where r: "cell_rect g i j = (x, y, w, h)"
    by (cases "cell_rect g i j") auto
  obtain x' y' w' h' where r': "cell_rect g 7 7 = (x', y', w', h')"
    by (cases "cell_rect g 7 7") auto
  have 1: "case cell_rect g i j of (x, y, w, h) \<Rightarrow>
      dark_fill g i j = (if even (i + j) then [FillRect x y w h (dark g)] else [])"
    using dark_fill_rect [OF r] by (simp add: r)
  have 2: "dark_fill (g\<lparr>flipped := fl\<rparr>) i j = dark_fill g i j"
    by (simp add: dark_fill_def)
  have 3: "0 \<le> i \<and> i \<le> 7 \<and> 0 \<le> j \<and> j \<le> 7 \<longrightarrow>
        cells ! nat (8 * i + j) = (i, j)
        \<and> (coords False i j = js ''a1'' \<longleftrightarrow> i = 7 \<and> j = 7)
        \<and> (coords False i j = js ''h1'' \<longleftrightarrow> i = 7 \<and> j = 0)"
    using cells_nth [of i j] coords_a1 [of i j] coords_h1 [of i j] by blast
  have 4: "case cell_rect g 7 7 of (x, y, w, h) \<Rightarrow> dark_fill g 7 7 = [FillRect x y w h (dark g)]"
    using dark_fill_rect [OF r'] by (simp add: r')
  have 5: "dark_fill g 7 0 = []"
    by (simp add: dark_fill_def)
  have 6: "\<forall>cv g'. generateBuffer co cfg g = (Inr cv, g') \<longrightarrow>
        (\<exists>as. arrows g = Some as
           \<and> ops cv = FillRect 0 0 (width cv) (height cv) (light g)
               # concat (map (\<lambda>(i, j). dark_fill g i j @ highlight_fill g i j
                                          @ sprite_ops co cfg g i j) cells)
               @ map (draw_arrow g) as)"
    using generateBuffer_ops by blast
  show ?thesis
    using 1 2 3 4 5 6 length_cells by blast
qed

theorem dark_fill_parity_witness:
  "coords False 7 7 = js ''a1'' \<and> coords False 7 0 = js ''h1''
   \<and> dark_fill (ChessImageGenerator example_config no_options) 7 7
       = [FillRect 0 420 60 60 (js ''gray'')]
   \<and> dark_fill (ChessImageGenerator example_config no_options) 7 0 = []
   \<and> (\<exists>cv. fst (generateBuffer example_collaborators example_config
          (addArrows (loadArray (ChessImageGenerator example_config no_options) [[js ''K'']]) []))
          = Inr cv
        \<and> FillRect 0 420 60 60 (js ''gray'') \<in> set (ops cv))"
proof -
  let ?g = "ChessImageGenerator example_config no_options"
  let ?h = "addArrows (loadArray ?g [[js ''K'']]) []"
  have f: "size' ?g = 480" "padding ?g = Padding 0 0 0 0" "dark ?g = js ''gray''"
    by (simp_all add: ChessImageGenerator_def or_number_def or_array_def or_string_def
        no_options_def example_config_def)
  have h: "ready ?h" "arrows ?h = Some []" "size' ?h = 480" "padding ?h = Padding 0 0 0 0"
      "dark ?h = js ''gray''"
    by (simp_all add: addArrows_def loadArray_def f)
  have r: "cell_rect ?g 7 7 = (0, 420, 60, 60)" "cell_rect ?h 7 7 = (0, 420, 60, 60)"
    by (simp_all add: cell_rect_def f h)
  note t = dark_fill_parity [of ?g 7 7 False example_collaborators example_config]
  note u = dark_fill_parity [of ?g 7 0 False example_collaborators example_config]
  note w = dark_fill_parity [of ?h 7 7 False example_collaborators example_config]
  have a1: "coords False 7 7 = js ''a1''" using t by simp
  have h1: "coords False 7 0 = js ''h1''" using u by simp
  have d: "dark_fill ?g 7 7 = [FillRect 0 420 60 60 (js ''gray'')]"
    using t [THEN conjunct1] by (simp add: r f)
  have e: "dark_fill ?g 7 0 = []"
    using u [THEN conjunct2, THEN conjunct2, THEN conjunct2, THEN conjunct2, THEN conjunct2,
      THEN conjunct1] .
  have dh: "dark_fill ?h 7 7 = [FillRect 0 420 60 60 (js ''gray'')]"
    using w [THEN conjunct1] by (simp add: r h)
  obtain cv where cv: "generateBuffer example_collaborators example_config ?h = (Inr cv, ?h)"
    using generateBuffer_succeeds [OF h(1) h(2), of example_collaborators example_config]
    by (auto simp: example_collaborators_def)
  have "\<forall>cv g'. generateBuffer example_collaborators example_config ?h = (Inr cv, g') \<longrightarrow>
        (\<exists>as. arrows ?h = Some as
           \<and> ops cv = FillRect 0 0 (width cv) (height cv) (light ?h)
               # concat (map (\<lambda>(i, j). dark_fill ?h i j @ highlight_fill ?h i j
                   @ sprite_ops example_collaborators example_config ?h i j) cells)
               @ map (draw_arrow ?h) as)"
    using w by blast
  then obtain as where o: "ops cv = FillRect 0 0 (width cv) (height cv) (light ?h)
               # concat (map (\<lambda>(i, j). dark_fill ?h i j @ highlight_fill ?h i j
                   @ sprite_ops example_collaborators example_config ?h i j) cells)
               @ map (draw_arrow ?h) as"
    using cv by blast
  have "FillRect 0 420 60 60 (js ''gray'') \<in> set (ops cv)"
    by (rule block_in_ops [OF o, of 7 7]) (simp_all add: dh)
  then show ?thesis using a1 h1 d e cv by simp
qed

text \<open>
  C7. When the rules engine rejects the notation, \<open>loadFEN\<close> and \<open>loadPGN\<close> raise the
  error "... could not be read successfully" and \<open>ready\<close> keeps its prior value.
\<close>

theorem rejected_notation:
  "(\<not> fst (load co s (chess g)) \<longrightarrow>
      fst (loadFEN co g s) = Inl (Error ''FEN could not be read successfully'')
      \<and> ready (snd (loadFEN co g s)) = ready g)
   \<and> (\<not> fst (load_pgn co s (chess g)) \<longrightarrow>
      fst (loadPGN co g s) = Inl (Error ''PGN could not be read successfully'')
      \<and> ready (snd (loadPGN co g s)) = ready g)"
  by (simp add: loadFEN_def loadPGN_def case_prod_beta)

theorem rejected_notation_witness:
  "fst (loadFEN example_collaborators
          (loadArray (ChessImageGenerator example_config no_options) []) (js ''x''))
     = Inl (Error ''FEN could not be read successfully'')
   \<and> ready (snd (loadFEN example_collaborators
          (loadArray (ChessImageGenerator example_config no_options) []) (js ''x'')))
   \<and> fst (loadPGN example_collaborators (ChessImageGenerator example_config no_options) (js ''x''))
     = Inl (Error ''PGN could not be read successfully'')
   \<and> \<not> ready (snd (loadPGN example_collaborators
          (ChessImageGenerator example_config no_options) (js ''x'')))"
  using rejected_notation [of example_collaborators "js ''x''"
      "loadArray (ChessImageGenerator example_config no_options) []"]
    rejected_notation [of example_collaborators "js ''x''"
      "ChessImageGenerator example_config no_options"]
  by (simp add: example_collaborators_def loadArray_def ChessImageGenerator_def)

text \<open>
  C8. The canvas of a render is \<open>size + padding_left + padding_right\<close> wide and
  \<open>size + padding_top + padding_bottom\<close> high. After the background, which fills the canvas
  with the light colour, its drawing calls are, for each of the 64 cells \<open>(i, j)\<close> with \<open>i\<close>
  and \<open>j\<close> in 0..7, row by row, the dark fill, the highlight fill and the sprite of the
  cell, and then the arrows. The dark fill (drawn when \<open>i + j\<close> is even), the highlight
  fill (drawn when the square of the cell is highlighted) and the sprite (drawn when the
  square holds a piece) each use the rectangle \<open>cell_rect\<close> of the cell:
  \<open>x = (size/8) \<times> (7 - j + 1) - size/8 + padding_left\<close>, \<open>y = (size/8) \<times> i + padding_top\<close>,
  width and height \<open>size/8\<close>.
\<close>

theorem canvas_and_cell_rectangles:
  assumes "generateBuffer co cfg g = (Inr cv, g')"
  shows "width cv = size' g + pad_at (padding g) 3 + pad_at (padding g) 1
       \<and> height cv = size' g + pad_at (padding g) 0 + pad_at (padding g) 2
       \<and> length cells = 64
       \<and> (\<exists>as. arrows g = Some as
            \<and> ops cv = FillRect 0 0 (width cv) (height cv) (light g)
                # concat (map (\<lambda>(i, j). dark_fill g i j @ highlight_fill g i j
                                           @ sprite_ops co cfg g i j) cells)
                @ map (draw_arrow g) as)
       \<and> (\<forall>i j. 0 \<le> i \<and> i \<le> 7 \<and> 0 \<le> j \<and> j \<le> 7 \<longrightarrow>
            cells ! nat (8 * i + j) = (i, j)
            \<and> (case cell_rect g i j of (x, y, w, h) \<Rightarrow>
                 dark_fill g i j = (if even (i + j) then [FillRect x y w h (dark g)] else [])
                 \<and> highlight_fill g i j =
                     (if coords (flipped g) i j \<in> set (highlightedSquares g)
                      then [FillRect x y w h (highlight g)] else [])
                 \<and> sprite_ops co cfg g i j =
                     (case chess_get (chess g) (coords (flipped g) i j) of
                        None \<Rightarrow> []
                      | Some p \<Rightarrow>
                          if type p \<noteq> [] \<and> str_includes black (toLowerCase (type p))
                          then [DrawImage (image_path cfg g p) x y w h] else [])))"
proof -
  note o = generateBuffer_ops [OF assms]
  have c: "\<forall>i j. 0 \<le> i \<and> i \<le> 7 \<and> 0 \<le> j \<and> j \<le> 7 \<longrightarrow>
            cells ! nat (8 * i + j) = (i, j)
            \<and> (case cell_rect g i j of (x, y, w, h) \<Rightarrow>
                 dark_fill g i j = (if even (i + j) then [FillRect x y w h (dark g)] else [])
                 \<and> highlight_fill g i j =
                     (if coords (flipped g) i j \<in> set (highlightedSquares g)
                      then [FillRect x y w h (highlight g)] else [])
                 \<and> sprite_ops co cfg g i j =
                     (case chess_get (chess g) (coords (flipped g) i j) of
                        None \<Rightarrow> []
                      | Some p \<Rightarrow>
                          if type p \<noteq> [] \<and> str_includes black (toLowerCase (type p))
                          then [DrawImage (image_path cfg g p) x y w h] else []))"
  proof (intro allI impI)
    fix i j :: int
    assume b: "0 \<le> i \<and> i \<le> 7 \<and> 0 \<le> j \<and> j \<le> 7"
    obtain x y w h where r: "cell_rect g i j = (x, y, w, h)"
      by (cases "cell_rect g i j") auto
    have "(i, j) \<in> set cells" using b by (intro cells_mem) simp_all
    then obtain im where im: "piece_image co cfg g i j = Inr im" using o by blast
    show "cells ! nat (8 * i + j) = (i, j)
            \<and> (case cell_rect g i j of (x, y, w, h) \<Rightarrow>
                 dark_fill g i j = (if even (i + j) then [FillRect x y w h (dark g)] else [])
                 \<and> highlight_fill g i j =
                     (if coords (flipped g) i j \<in> set (highlightedSquares g)
                      then [FillRect x y w h (highlight g)] else [])
                 \<and> sprite_ops co cfg g i j =
                     (case chess_get (chess g) (coords (flipped g) i j) of
                        None \<Rightarrow> []
                      | Some p \<Rightarrow>
                          if type p \<noteq> [] \<and> str_includes black (toLowerCase (type p))
                          then [DrawImage (image_path cfg g p) x y w h] else []))"
      using cells_nth [of i j] b dark_fill_rect [OF r] highlight_fill_rect [OF r]
        sprite_ops_rect [OF r im]
      by (simp add: r)
  qed
  show ?thesis
    using o c length_cells by blast
qed

theorem canvas_and_cell_rectangles_witness:
  "\<exists>cv. fst (generateBuffer example_collaborators example_config
             (addArrows (highlightSquares
                (loadArray (ChessImageGenerator example_config test_options) [[js ''K'']])
                [js ''a1'']) []))
           = Inr cv
      \<and> width cv = 1404 \<and> height cv = 1872
      \<and> hd (ops cv) = FillRect 0 0 1404 1872 (js ''#ccc'')
      \<and> DrawImage (js ''resources/merida/wk.png'') 44 288 (329 / 2) (329 / 2) \<in> set (ops cv)
      \<and> FillRect 44 (2879 / 2) (329 / 2) (329 / 2) (js ''#aaa'') \<in> set (ops cv)
      \<and> FillRect 44 (2879 / 2) (329 / 2) (329 / 2) (js ''#ff0000'') \<in> set (ops cv)"
proof -
  let ?g = "addArrows (highlightSquares
      (loadArray (ChessImageGenerator example_config test_options) [[js ''K'']]) [js ''a1'']) []"
  have g: "ready ?g" "arrows ?g = Some []" "size' ?g = 1316" "padding ?g = Padding 288 44 268 44"
      "light ?g = js ''#ccc''" "dark ?g = js ''#aaa''" "highlight ?g = js ''#ff0000''"
      "style ?g = js ''merida''" "flipped ?g = False" "highlightedSquares ?g = [js ''a1'']"
      "chess ?g = loadArray_rows chess_clear 0 [[js ''K'']]"
    by (simp_all add: addArrows_def highlightSquares_def loadArray_def ChessImageGenerator_def
        test_options_def example_config_def or_number_def or_array_def or_string_def
        or_boolean_def js_def)
  have k: "chess_get (chess ?g) (js ''a8'') = Some \<lparr>type = js ''k'', color = js ''w''\<rparr>"
    unfolding g(11) by code_simp
  have p: "js ''k'' \<noteq> []" "str_includes black (toLowerCase (js ''k''))"
    by (simp_all add: js_def toLowerCase_def lower_unit_def kelvin_def str_includes_single black_def)
  have c: "coords False 7 7 = js ''a1''" "coords False 0 7 = js ''a8''"
    by (simp_all add: eval_defs)
  have r: "cell_rect ?g 7 7 = (44, 2879 / 2, 329 / 2, 329 / 2)"
      "cell_rect ?g 0 7 = (44, 288, 329 / 2, 329 / 2)"
    by (simp_all add: cell_rect_def g)
  have fp: "\<And>k. filePaths example_config k = Some k"
    by (simp add: example_config_def)
  have i: "image_path example_config ?g \<lparr>type = js ''k'', color = js ''w''\<rparr>
      = js ''resources/merida/wk.png''"
    unfolding image_path_def g(8) by (simp add: fp js_def)
  obtain cv where cv: "generateBuffer example_collaborators example_config ?g = (Inr cv, ?g)"
    using generateBuffer_succeeds [OF g(1) g(2), of example_collaborators example_config]
    by (auto simp: example_collaborators_def)
  note t = canvas_and_cell_rectangles [OF cv]
  have wh: "width cv = 1404" "height cv = 1872"
    using t [THEN conjunct1] t [THEN conjunct2, THEN conjunct1] by (simp_all add: g)
  obtain as where o: "ops cv = FillRect 0 0 (width cv) (height cv) (light ?g)
      # concat (map (\<lambda>(i, j). dark_fill ?g i j @ highlight_fill ?g i j
          @ sprite_ops example_collaborators example_config ?g i j) cells)
      @ map (draw_arrow ?g) as"
    using t [THEN conjunct2, THEN conjunct2, THEN conjunct2, THEN conjunct1] by blast
  note cell = t [THEN conjunct2, THEN conjunct2, THEN conjunct2, THEN conjunct2, rule_format]
  have a1: "dark_fill ?g 7 7 = [FillRect 44 (2879 / 2) (329 / 2) (329 / 2) (js ''#aaa'')]"
      "highlight_fill ?g 7 7 = [FillRect 44 (2879 / 2) (329 / 2) (329 / 2) (js ''#ff0000'')]"
    using cell [of 7 7] by (simp_all add: r g(6,7,9,10) c)
  have a8: "sprite_ops example_collaborators example_config ?g 0 7
      = [DrawImage (js ''resources/merida/wk.png'') 44 288 (329 / 2) (329 / 2)]"
    using cell [of 0 7] by (simp add: r g(9) c k p i)
  have 1: "hd (ops cv) = FillRect 0 0 1404 1872 (js ''#ccc'')"
    by (simp add: o wh g)
  have 2: "DrawImage (js ''resources/merida/wk.png'') 44 288 (329 / 2) (329 / 2) \<in> set (ops cv)"
    by (rule block_in_ops [OF o, of 0 7]) (simp_all add: a8)
  have 3: "FillRect 44 (2879 / 2) (329 / 2) (329 / 2) (js ''#aaa'') \<in> set (ops cv)"
    by (rule block_in_ops [OF o, of 7 7]) (simp_all add: a1)
  have 4: "FillRect 44 (2879 / 2) (329 / 2) (329 / 2) (js ''#ff0000'') \<in> set (ops cv)"
    by (rule block_in_ops [OF o, of 7 7]) (simp_all add: a1)
  show ?thesis using cv wh 1 2 3 4 by simp
qed

text \<open>
  C9. \<open>generateBuffer\<close> leaves the instance as it found it: the position, the highlighted
  squares, the arrow list, readiness and every configuration field are unchanged.
\<close>

theorem generateBuffer_frame:
  "snd (generateBuffer co cfg g) = g"
  by (simp add: generateBuffer_def split: sum.splits option.splits)

text \<open>
  C10. An option given as 0 (size) or as the empty string (the colours and the style)
  yields the same instance as the option left out: the field holds the default.
\<close>

theorem falsy_options_are_omitted:
  "ChessImageGenerator cfg (opts\<lparr>o_size := Some 0\<rparr>) = ChessImageGenerator cfg (opts\<lparr>o_size := None\<rparr>)
   \<and> size' (ChessImageGenerator cfg (opts\<lparr>o_size := Some 0\<rparr>)) = defaultSize cfg
   \<and> ChessImageGenerator cfg (opts\<lparr>o_light := Some []\<rparr>) = ChessImageGenerator cfg (opts\<lparr>o_light := None\<rparr>)
   \<and> light (ChessImageGenerator cfg (opts\<lparr>o_light := Some []\<rparr>)) = defaultLight cfg
   \<and> ChessImageGenerator cfg (opts\<lparr>o_dark := Some []\<rparr>) = ChessImageGenerator cfg (opts\<lparr>o_dark := None\<rparr>)
   \<and> dark (ChessImageGenerator cfg (opts\<lparr>o_dark := Some []\<rparr>)) = defaultDark cfg
   \<and> ChessImageGenerator cfg (opts\<lparr>o_highlight := Some []\<rparr>)
       = ChessImageGenerator cfg (opts\<lparr>o_highlight := None\<rparr>)
   \<and> highlight (ChessImageGenerator cfg (opts\<lparr>o_highlight := Some []\<rparr>)) = defaultHighlight cfg
   \<and> ChessImageGenerator cfg (opts\<lparr>o_style := Some []\<rparr>) = ChessImageGenerator cfg (opts\<lparr>o_style := None\<rparr>)
   \<and> style (ChessImageGenerator cfg (opts\<lparr>o_style := Some []\<rparr>)) = defaultStyle cfg"
  by (simp add: ChessImageGenerator_def or_number_def or_string_def)

end
